theory Spec2Isabelle
  imports Complex_Main "HOL-Library.Multiset" "HOL-Library.Char_ord" "HOL-Library.List_Lexorder"
begin

section \<open>Schedule editor: spreadsheet import, slot derivation, placement and export\<close>

text \<open>
  A shallow embedding of the TypeScript sources of the schedule editor: the Excel service
  (\<open>normalizeTime\<close>, \<open>normalizeDate\<close>, \<open>extractSquadFromA1\<close>, \<open>parseExcelFile\<close>,
  \<open>exportToExcel\<close>) and the state logic of the \<open>App\<close> component (\<open>dynamicTimeSlots\<close>,
  \<open>visibleDates\<close>, \<open>onDropToTimetable\<close>, \<open>onDropToParking\<close>, the discard button).

  Conventions of the model.
  \<^item> A JavaScript string is a list of code units; a \<open>char\<close> stands for the code unit of
    the same number (the Latin-1 range), and \<open>a < b\<close> on strings is the order by code units.
  \<^item> A JavaScript number that the code computes with (\<open>hours\<close>, \<open>minutes\<close>, the result of
    \<open>parseInt\<close>) is an \<open>int option\<close>, where \<open>None\<close> is \<open>NaN\<close>. A numeric cell is a
    rational: every finite double is one, and products are exact here where a double
    rounds.
  \<^item> What the platform decides and the sources do not (the text of a number that is not
    a small integer, \<open>new Date(string)\<close>, SheetJS' \<open>parse_date_code\<close>,
    \<open>localeCompare\<close>, \<open>Math.random\<close>) is a field of the environment record \<open>js_env\<close>.
  \<^item> An exception is a value: fallible functions return \<open>js_error + 'a\<close>.
\<close>

subsection \<open>JavaScript values\<close>

datatype js_error = RangeError | TypeError

text \<open>
  A valid \<open>Date\<close> object, by what the sources observe of it: the local hour and minute
  (\<open>getHours()\<close>, \<open>getMinutes()\<close>), \<open>toISOString()\<close> and \<open>String(d)\<close>.
\<close>

record jsdate =
  getHours :: int
  getMinutes :: int
  toISOString :: string
  dateText :: string

text \<open>
  The value of a spreadsheet cell as \<open>sheet_to_json\<close> hands it over (\<open>any\<close> in the
  sources). \<open>DateV None\<close> is the \<open>Date\<close> object whose time value is \<open>NaN\<close>
  (\<open>Invalid Date\<close>).
\<close>

datatype cell = Undefined | Null | BoolV bool | NumV rat | StrV string | DateV "jsdate option"

record js_env =
  numToString :: "rat \<Rightarrow> string"
  newDate :: "string \<Rightarrow> jsdate option"
  parse_date_code :: "rat \<Rightarrow> (int \<times> int \<times> int) option"
  localeCompare :: "string \<Rightarrow> string \<Rightarrow> int"
  randomId :: "nat \<Rightarrow> string"

subsection \<open>Strings and numbers of the language\<close>

definition is_digit :: "char \<Rightarrow> bool" where
  "is_digit c = (c \<in> set ''0123456789'')"

definition is_letter :: "char \<Rightarrow> bool" where
  "is_letter c = (c \<in> set ''abcdefghijklmnopqrstuvwxyzABCDEFGHIJKLMNOPQRSTUVWXYZ'')"

text \<open>White space of \<open>trim\<close> and \<open>parseInt\<close>: TAB, LF, VT, FF, CR, space, NBSP.\<close>

definition is_space :: "char \<Rightarrow> bool" where
  "is_space c = (c \<in> set [CHR 0x09, CHR 0x0A, CHR 0x0B, CHR 0x0C, CHR 0x0D, CHR 0x20, CHR 0xA0])"

definition trim :: "string \<Rightarrow> string" where
  "trim s = rev (dropWhile is_space (rev (dropWhile is_space s)))"

text \<open>\<open>toLowerCase\<close> on one code unit: \<open>A\<close>-\<open>Z\<close> and the capital letters of Latin-1.\<close>

definition lower_char :: "char \<Rightarrow> char" where
  "lower_char c =
     (let n = (of_char c :: nat)
      in if (65 \<le> n \<and> n \<le> 90) \<or> (192 \<le> n \<and> n \<le> 222 \<and> n \<noteq> 215)
         then char_of (n + 32) else c)"

definition toLowerCase :: "string \<Rightarrow> string" where
  "toLowerCase s = map lower_char s"

text \<open>\<open>s.includes(p)\<close>: \<open>p\<close> occurs in \<open>s\<close> as a contiguous block.\<close>

fun includes_str :: "string \<Rightarrow> string \<Rightarrow> bool" where
  "includes_str [] p = (p = [])"
| "includes_str (c # cs) p = (take (length p) (c # cs) = p \<or> includes_str cs p)"

text \<open>\<open>s.split(c)\<close> for a one-character separator: never the empty list.\<close>

fun split_on :: "char \<Rightarrow> string \<Rightarrow> string list" where
  "split_on c [] = [[]]"
| "split_on c (x # xs) =
     (if x = c then [] # split_on c xs
      else (case split_on c xs of [] \<Rightarrow> [[x]] | p # ps \<Rightarrow> (x # p) # ps))"

definition padStart :: "nat \<Rightarrow> string \<Rightarrow> string" where
  "padStart n s = replicate (n - length s) (CHR ''0'') @ s"

definition digit_char :: "nat \<Rightarrow> char" where
  "digit_char d = char_of (48 + d)"

definition digit_val :: "char \<Rightarrow> nat" where
  "digit_val c = of_char c - 48"

fun nat_digits :: "nat \<Rightarrow> string" where
  "nat_digits n = (if n < 10 then [digit_char n] else nat_digits (n div 10) @ [digit_char (n mod 10)])"

declare nat_digits.simps [simp del]

definition int_text :: "int \<Rightarrow> string" where
  "int_text i = (if i < 0 then CHR ''-'' # nat_digits (nat (- i)) else nat_digits (nat i))"

text \<open>
  \<open>String(n)\<close> for a number: the decimal numeral when \<open>n\<close> is an integer below
  \<open>10^21\<close> in size, and otherwise what the platform prints (a fraction, an exponent).
\<close>

definition number_text :: "js_env \<Rightarrow> rat \<Rightarrow> string" where
  "number_text env q =
     (if of_int \<lfloor>q\<rfloor> = q \<and> \<bar>q\<bar> < 10 ^ 21 then int_text \<lfloor>q\<rfloor> else numToString env q)"

text \<open>\<open>String(v)\<close>.\<close>

fun js_String :: "js_env \<Rightarrow> cell \<Rightarrow> string" where
  "js_String env Undefined = ''undefined''"
| "js_String env Null = ''null''"
| "js_String env (BoolV b) = (if b then ''true'' else ''false'')"
| "js_String env (NumV q) = number_text env q"
| "js_String env (StrV s) = s"
| "js_String env (DateV None) = ''Invalid Date''"
| "js_String env (DateV (Some d)) = dateText d"

text \<open>Truthiness: \<open>undefined\<close>, \<open>null\<close>, \<open>false\<close>, \<open>0\<close> and \<open>''\<close> are falsy.\<close>

fun truthy :: "cell \<Rightarrow> bool" where
  "truthy Undefined = False"
| "truthy Null = False"
| "truthy (BoolV b) = b"
| "truthy (NumV q) = (q \<noteq> 0)"
| "truthy (StrV s) = (s \<noteq> [])"
| "truthy (DateV d) = True"

text \<open>
  \<open>parseInt(s, 10)\<close>: leading white space is skipped, one sign is read, then the longest
  run of decimal digits; no digit gives \<open>NaN\<close>. The value is exact (a double is, up to
  \<open>2^53\<close>).
\<close>

definition digits_value :: "string \<Rightarrow> nat" where
  "digits_value ds = foldl (\<lambda>a c. 10 * a + digit_val c) 0 ds"

definition parseInt :: "string \<Rightarrow> int option" where
  "parseInt s =
     (let t = dropWhile is_space s;
          neg = (t \<noteq> [] \<and> hd t = CHR ''-'');
          u = (if t \<noteq> [] \<and> (hd t = CHR ''-'' \<or> hd t = CHR ''+'') then tl t else t);
          ds = takeWhile is_digit u
      in if ds = [] then None
         else Some (if neg then - int (digits_value ds) else int (digits_value ds)))"

text \<open>The remainder \<open>a % b\<close> on integers takes the sign of \<open>a\<close>; on \<open>NaN\<close> it is \<open>NaN\<close>.\<close>

definition js_rem :: "int option \<Rightarrow> int \<Rightarrow> int option" where
  "js_rem a b = map_option (\<lambda>x. sgn x * (\<bar>x\<bar> mod \<bar>b\<bar>)) a"

text \<open>\<open>String(n)\<close> for a computed number.\<close>

definition num_text :: "int option \<Rightarrow> string" where
  "num_text n = (case n of None \<Rightarrow> ''NaN'' | Some i \<Rightarrow> int_text i)"

subsection \<open>normalizeTime\<close>

text \<open>
  The first match of \<open>/(am|pm)/i\<close>: \<open>Some True\<close> when it is \<open>pm\<close>, \<open>Some False\<close> when it is
  \<open>am\<close>, \<open>None\<close> when there is none.
\<close>

fun ampmMatch :: "string \<Rightarrow> bool option" where
  "ampmMatch (a # b # cs) =
     (if lower_char b = CHR ''m'' \<and> lower_char a = CHR ''p'' then Some True
      else if lower_char b = CHR ''m'' \<and> lower_char a = CHR ''a'' then Some False
      else ampmMatch (b # cs))"
| "ampmMatch cs = None"

text \<open>\<open>str.replace(/[a-z]/gi, '').split(':').map(p => p.trim()).filter(p => p.length > 0)\<close>\<close>

definition time_parts :: "string \<Rightarrow> string list" where
  "time_parts str =
     filter (\<lambda>p. length p > 0) (map trim (split_on (CHR '':'') (filter (\<lambda>c. \<not> is_letter c) str)))"

text \<open>The pair \<open>(hours, minutes)\<close> before the final wrap-around.\<close>

definition hm_of_padded :: "string \<Rightarrow> int option \<times> int option" where
  "hm_of_padded t = (parseInt (take 2 t), parseInt (take 2 (drop 2 t)))"

definition string_hm :: "string \<Rightarrow> int option \<times> int option" where
  "string_hm s =
     (let str = trim s;
          parts = time_parts str;
          (hours, minutes) =
            (if length parts \<ge> 2 then (parseInt (parts ! 0), parseInt (parts ! 1))
             else if length parts = 1 then hm_of_padded (padStart 4 (parts ! 0))
             else (Some 0, Some 0))
      in case ampmMatch str of
           None \<Rightarrow> (hours, minutes)
         | Some isPM \<Rightarrow>
             (let h1 = (if isPM \<and> (case hours of Some h \<Rightarrow> h < 12 | None \<Rightarrow> False)
                        then map_option (\<lambda>h. h + 12) hours else hours);
                  h2 = (if \<not> isPM \<and> h1 = Some 12 then Some 0 else h1)
              in (h2, minutes)))"

fun raw_hm :: "js_env \<Rightarrow> cell \<Rightarrow> int option \<times> int option" where
  "raw_hm env (DateV None) = (None, None)"
| "raw_hm env (DateV (Some d)) = (Some (getHours d), Some (getMinutes d))"
| "raw_hm env (NumV v) =
     (if v < 1 \<and> v \<ge> 0
      then (let totalMinutes = \<lfloor>v * 1440 + 1 / 2\<rfloor>
            in (Some (totalMinutes div 60), Some (totalMinutes mod 60)))
      else hm_of_padded (padStart 4 (number_text env v)))"
| "raw_hm env v = string_hm (js_String env v)"

definition format_hm :: "int option \<times> int option \<Rightarrow> string" where
  "format_hm hm =
     padStart 2 (num_text (js_rem (fst hm) 24)) @ padStart 2 (num_text (js_rem (snd hm) 60))"

definition is_blank :: "cell \<Rightarrow> bool" where
  "is_blank v = (v = Undefined \<or> v = Null \<or> v = StrV [])"

definition normalizeTime :: "js_env \<Rightarrow> cell \<Rightarrow> string" where
  "normalizeTime env v = (if is_blank v then [] else format_hm (raw_hm env v))"

subsection \<open>normalizeDate and extractSquadFromA1\<close>

text \<open>The test \<open>/^\d{4}-\d{2}-\d{2}$/\<close>.\<close>

definition is_iso_date :: "string \<Rightarrow> bool" where
  "is_iso_date s =
     (length s = 10 \<and> list_all is_digit (take 4 s) \<and> s ! 4 = CHR ''-'' \<and>
      list_all is_digit (take 2 (drop 5 s)) \<and> s ! 7 = CHR ''-'' \<and> list_all is_digit (drop 8 s))"

text \<open>\<open>d.toISOString().split('T')[0]\<close> for a valid date.\<close>

definition iso_day :: "jsdate \<Rightarrow> string" where
  "iso_day d = hd (split_on (CHR ''T'') (toISOString d))"

text \<open>
  The last part of \<open>normalizeDate\<close>, on the string form of the value: \<open>new Date(str)\<close> is
  asked only for a string that is not \<open>YYYY-MM-DD\<close> already, and \<open>toISOString\<close> is called
  only behind the guard \<open>!isNaN(d.getTime())\<close>.
\<close>

definition date_of_text :: "js_env \<Rightarrow> string \<Rightarrow> string" where
  "date_of_text env s =
     (let str = trim s
      in if is_iso_date str then str
         else (case newDate env str of Some d \<Rightarrow> iso_day d | None \<Rightarrow> str))"

text \<open>
  \<open>normalizeDate\<close>. Two calls can throw: \<open>date.y\<close> when \<open>parse_date_code\<close> returns
  \<open>null\<close> (a \<open>TypeError\<close>), and \<open>val.toISOString()\<close> on a \<open>Date\<close> whose time value is
  \<open>NaN\<close> (a \<open>RangeError\<close>); the branch for \<open>Date\<close> objects has no guard.
\<close>

definition normalizeDate :: "js_env \<Rightarrow> cell \<Rightarrow> js_error + string" where
  "normalizeDate env v =
     (if \<not> truthy v then Inr []
      else (case v of
              NumV q \<Rightarrow>
                (if q > 30000
                 then (case parse_date_code env q of
                         None \<Rightarrow> Inl TypeError
                       | Some (y, m, d) \<Rightarrow>
                           Inr (int_text y @ ''-'' @ padStart 2 (int_text m) @ ''-'' @ padStart 2 (int_text d)))
                 else Inr (date_of_text env (js_String env v)))
            | DateV dv \<Rightarrow> (case dv of None \<Rightarrow> Inl RangeError | Some d \<Rightarrow> Inr (iso_day d))
            | _ \<Rightarrow> Inr (date_of_text env (js_String env v))))"

text \<open>The first match of \<open>/\d+/\<close>: the first maximal run of digits, \<open>[]\<close> when there is none.\<close>

definition first_digits :: "string \<Rightarrow> string" where
  "first_digits s = takeWhile is_digit (dropWhile (\<lambda>c. \<not> is_digit c) s)"

definition extractSquadFromA1 :: "js_env \<Rightarrow> cell \<Rightarrow> string" where
  "extractSquadFromA1 env v =
     (if is_blank v then []
      else (let str = trim (js_String env v)
            in if first_digits str \<noteq> [] then first_digits str else str))"

subsection \<open>Sessions and the import\<close>

text \<open>
  The interface \<open>Session\<close>. The fields \<open>id\<close>, \<open>from\<close> and \<open>to\<close> carry a prime, since the
  plain names are taken. \<open>squad_number\<close> is \<open>number | string\<close>.
\<close>

datatype squad = SquadNum rat | SquadStr string

record session =
  id' :: string
  squad_number :: squad
  date :: string
  from' :: string
  to' :: string
  course_id :: string
  lu_id :: string
  mentor_id :: string

fun squad_text :: "js_env \<Rightarrow> squad \<Rightarrow> string" where
  "squad_text env (SquadNum q) = number_text env q"
| "squad_text env (SquadStr s) = s"

text \<open>A row of \<open>sheet_to_json(..., {header: 1})\<close>; \<open>row[i]\<close> beyond its length is \<open>undefined\<close>.\<close>

type_synonym row = "cell list"

definition cell_at :: "row \<Rightarrow> nat \<Rightarrow> cell" where
  "cell_at r i = (if i < length r then r ! i else Undefined)"

text \<open>A repeated header row: the lower-cased first cell contains \<open>slot\<close>, \<open>date\<close> or \<open>squad\<close>.\<close>

definition is_label_row :: "js_env \<Rightarrow> row \<Rightarrow> bool" where
  "is_label_row env r =
     (let col1Val = toLowerCase (js_String env (if truthy (cell_at r 0) then cell_at r 0 else StrV []))
      in includes_str col1Val ''slot'' \<or> includes_str col1Val ''date'' \<or> includes_str col1Val ''squad'')"

text \<open>The session literal pushed for a row; \<open>n\<close> counts the calls of \<open>Math.random\<close> so far.\<close>

definition make_session :: "js_env \<Rightarrow> string \<Rightarrow> nat \<Rightarrow> row \<Rightarrow> string \<Rightarrow> string \<Rightarrow> string \<Rightarrow> session" where
  "make_session env squadForThisSheet n r sessionDate fromTime toTime =
     \<lparr> id' = randomId env n,
       squad_number = SquadStr squadForThisSheet,
       date = sessionDate,
       from' = fromTime,
       to' = toTime,
       course_id = (if truthy (cell_at r 4) then js_String env (cell_at r 4) else ''Untitled Course''),
       lu_id = (if truthy (cell_at r 5) then js_String env (cell_at r 5) else []),
       mentor_id = (if truthy (cell_at r 6) then js_String env (cell_at r 6) else ''Unassigned'') \<rparr>"

text \<open>
  The state of the loop over the rows of one sheet: \<open>lastDateInSheet\<close>, \<open>allSessions\<close> and
  the number of identifiers drawn.
\<close>

type_synonym import_state = "string \<times> session list \<times> nat"

text \<open>One iteration of the loop \<open>for (let i = 1; i < rawData.length; i++)\<close>.\<close>

definition row_step :: "js_env \<Rightarrow> string \<Rightarrow> row \<Rightarrow> import_state \<Rightarrow> js_error + import_state" where
  "row_step env squadForThisSheet r st =
     (case st of (lastDateInSheet, allSessions, n) \<Rightarrow>
        if length r < 3 then Inr st
        else if is_label_row env r then Inr st
        else (case normalizeDate env (cell_at r 1) of
                Inl e \<Rightarrow> Inl e
              | Inr nd \<Rightarrow>
                  (let sessionDate = (if nd \<noteq> [] then nd else lastDateInSheet);
                       fromTime = normalizeTime env (cell_at r 2);
                       toTime = normalizeTime env (cell_at r 3)
                   in if fromTime \<noteq> [] \<and> sessionDate \<noteq> []
                      then Inr (sessionDate,
                                allSessions @ [make_session env squadForThisSheet n r sessionDate fromTime toTime],
                                Suc n)
                      else Inr st)))"

fun sheet_rows :: "js_env \<Rightarrow> string \<Rightarrow> row list \<Rightarrow> import_state \<Rightarrow> js_error + import_state" where
  "sheet_rows env squadForThisSheet [] st = Inr st"
| "sheet_rows env squadForThisSheet (r # rs) st =
     (case row_step env squadForThisSheet r st of
        Inl e \<Rightarrow> Inl e
      | Inr st' \<Rightarrow> sheet_rows env squadForThisSheet rs st')"

text \<open>
  The body of \<open>workbook.SheetNames.forEach\<close> on the rows of one sheet: the tracker starts
  empty for every sheet, the sessions and the identifiers go on.
\<close>

definition parse_sheet :: "js_env \<Rightarrow> row list \<Rightarrow> session list \<times> nat \<Rightarrow> js_error + session list \<times> nat" where
  "parse_sheet env rawData acc =
     (if length rawData = 0 then Inr acc
      else (let squadForThisSheet = extractSquadFromA1 env (cell_at (rawData ! 0) 0)
            in if squadForThisSheet = [] then Inr acc
               else (case sheet_rows env squadForThisSheet (tl rawData) ([], fst acc, snd acc) of
                       Inl e \<Rightarrow> Inl e
                     | Inr (lastDateInSheet, allSessions, n) \<Rightarrow> Inr (allSessions, n))))"

fun parse_sheets :: "js_env \<Rightarrow> row list list \<Rightarrow> session list \<times> nat \<Rightarrow> js_error + session list \<times> nat" where
  "parse_sheets env [] acc = Inr acc"
| "parse_sheets env (sh # shs) acc =
     (case parse_sheet env sh acc of Inl e \<Rightarrow> Inl e | Inr acc' \<Rightarrow> parse_sheets env shs acc')"

text \<open>
  \<open>parseExcelFile\<close> on the workbook that \<open>XLSX.read\<close> returned, as the raw rows of its
  sheets in the order of \<open>SheetNames\<close>: the promise resolves with the sessions (\<open>Inr\<close>) or
  is rejected with what was thrown (\<open>Inl\<close>).
\<close>

definition parseExcelFile :: "js_env \<Rightarrow> row list list \<Rightarrow> js_error + session list" where
  "parseExcelFile env workbook =
     (case parse_sheets env workbook ([], 0) of Inl e \<Rightarrow> Inl e | Inr (allSessions, n) \<Rightarrow> Inr allSessions)"

text \<open>
  The tracker as the specification's sentence on blank dates has it (the resolved date of
  every earlier row that resolved one): every row that is not skipped and resolves a date,
  its own or else the tracker's, stores it, whether or not a session follows.
\<close>

fun spec_lastSeenDate :: "js_env \<Rightarrow> row list \<Rightarrow> string \<Rightarrow> string" where
  "spec_lastSeenDate env [] lastSeen = lastSeen"
| "spec_lastSeenDate env (r # rs) lastSeen =
     (if length r < 3 \<or> is_label_row env r then spec_lastSeenDate env rs lastSeen
      else (case normalizeDate env (cell_at r 1) of
              Inl e \<Rightarrow> lastSeen
            | Inr nd \<Rightarrow> spec_lastSeenDate env rs (if nd \<noteq> [] then nd else lastSeen)))"

text \<open>
  An environment to run examples in: \<open>new Date\<close> and \<open>parse_date_code\<close> read nothing,
  \<open>localeCompare\<close> is the comparison by code units, the identifiers are \<open>s0\<close>, \<open>s1\<close>, ...
  (the examples hold no number that is not a small integer).
\<close>

definition plain_env :: js_env where
  "plain_env =
     \<lparr> numToString = (\<lambda>q. []),
       newDate = (\<lambda>s. None),
       parse_date_code = (\<lambda>q. None),
       localeCompare = (\<lambda>a b. if a < b then - 1 else if a = b then 0 else 1),
       randomId = (\<lambda>n. CHR ''s'' # nat_digits n) \<rparr>"

subsection \<open>Array.prototype.sort\<close>

text \<open>
  \<open>xs.sort(cmp)\<close> as a stable insertion sort. A comparator result that is \<open>NaN\<close> counts as
  \<open>+0\<close>. The language fixes the outcome (the stable sorted arrangement) when the comparator
  is a consistent ordering of the elements, and leaves it to the engine otherwise.
\<close>

definition cmp_value :: "int option \<Rightarrow> int" where
  "cmp_value v = (case v of None \<Rightarrow> 0 | Some i \<Rightarrow> i)"

fun insert_sorted :: "('a \<Rightarrow> 'a \<Rightarrow> int option) \<Rightarrow> 'a \<Rightarrow> 'a list \<Rightarrow> 'a list" where
  "insert_sorted cmp x [] = [x]"
| "insert_sorted cmp x (y # ys) =
     (if cmp_value (cmp x y) \<le> 0 then x # y # ys else y # insert_sorted cmp x ys)"

definition array_sort :: "('a \<Rightarrow> 'a \<Rightarrow> int option) \<Rightarrow> 'a list \<Rightarrow> 'a list" where
  "array_sort cmp xs = foldr (insert_sorted cmp) xs []"

text \<open>\<open>parseInt(a, 10) - parseInt(b, 10)\<close>: \<open>NaN\<close> when either side is.\<close>

definition compare_from :: "string \<Rightarrow> string \<Rightarrow> int option" where
  "compare_from a b =
     (case (parseInt a, parseInt b) of (Some x, Some y) \<Rightarrow> Some (x - y) | _ \<Rightarrow> None)"

subsection \<open>The grid: slots and visible dates\<close>

record SlotDefinition =
  slot_from :: string
  slot_to :: string

definition defaultSlots :: "SlotDefinition list" where
  "defaultSlots =
     [\<lparr>slot_from = ''0830'', slot_to = ''1030''\<rparr>,
      \<lparr>slot_from = ''1030'', slot_to = ''1230''\<rparr>,
      \<lparr>slot_from = ''1330'', slot_to = ''1530''\<rparr>,
      \<lparr>slot_from = ''1530'', slot_to = ''1730''\<rparr>]"

text \<open>
  A \<open>Map<string, string>\<close> as the list of its entries in insertion order; \<open>set\<close> on a key
  that is present changes the value where the entry stands.
\<close>

fun slotMap_set :: "string \<Rightarrow> string \<Rightarrow> (string \<times> string) list \<Rightarrow> (string \<times> string) list" where
  "slotMap_set k v [] = [(k, v)]"
| "slotMap_set k v (e # es) = (if fst e = k then (k, v) # es else e # slotMap_set k v es)"

definition fill_slotMap :: "session list \<Rightarrow> (string \<times> string) list" where
  "fill_slotMap sessions =
     foldl (\<lambda>slotMap s. if from' s \<noteq> [] \<and> to' s \<noteq> [] then slotMap_set (from' s) (to' s) slotMap else slotMap)
       [] sessions"

definition dynamicTimeSlots :: "session list \<Rightarrow> SlotDefinition list" where
  "dynamicTimeSlots sessions =
     (let slotMap = fill_slotMap sessions
      in if length slotMap = 0 then defaultSlots
         else (let sortedFromTimes = array_sort compare_from (map fst slotMap)
               in map (\<lambda>f. \<lparr>slot_from = f, slot_to = (case map_of slotMap f of Some t \<Rightarrow> t | None \<Rightarrow> [])\<rparr>)
                    sortedFromTimes))"

text \<open>
  The slots as the specification words them: one entry for each distinct non-empty
  \<open>from\<close> of the collection, the last writer's \<open>to\<close>, whatever that \<open>to\<close> is.
\<close>

definition spec_deriveSlots :: "session list \<Rightarrow> SlotDefinition list" where
  "spec_deriveSlots sessions =
     (let slotMap = foldl (\<lambda>m s. if from' s \<noteq> [] then slotMap_set (from' s) (to' s) m else m) [] sessions
      in if slotMap = [] then defaultSlots
         else map (\<lambda>f. \<lparr>slot_from = f, slot_to = (case map_of slotMap f of Some t \<Rightarrow> t | None \<Rightarrow> [])\<rparr>)
                (array_sort compare_from (map fst slotMap)))"

subsection \<open>exportToExcel\<close>

definition squad_matches :: "js_env \<Rightarrow> squad \<Rightarrow> session \<Rightarrow> bool" where
  "squad_matches env squadId s =
     (toLowerCase (squad_text env (squad_number s)) = toLowerCase (squad_text env squadId))"

text \<open>The comparator of the sort: the dates by \<open>localeCompare\<close>, equal dates by \<open>from\<close>.\<close>

definition compare_sessions :: "js_env \<Rightarrow> session \<Rightarrow> session \<Rightarrow> int option" where
  "compare_sessions env a b =
     (if date a \<noteq> date b then Some (localeCompare env (date a) (date b))
      else compare_from (from' a) (from' b))"

definition sortedSessions :: "js_env \<Rightarrow> session list \<Rightarrow> squad \<Rightarrow> session list" where
  "sortedSessions env sessions squadId =
     array_sort (compare_sessions env) (filter (squad_matches env squadId) sessions)"

text \<open>A data row of the sheet: \<open>[daySlotCounter, s.date, s.from, s.to, s.course_id, s.lu_id, s.mentor_id]\<close>.\<close>

record data_row =
  slot_number :: int
  row_date :: string
  row_from :: string
  row_to :: string
  row_course_id :: string
  row_lu_id :: string
  row_mentor_id :: string

definition make_row :: "int \<Rightarrow> session \<Rightarrow> data_row" where
  "make_row daySlotCounter s =
     \<lparr> slot_number = daySlotCounter, row_date = date s, row_from = from' s, row_to = to' s,
       row_course_id = course_id s, row_lu_id = lu_id s, row_mentor_id = mentor_id s \<rparr>"

text \<open>The callback of \<open>sortedSessions.map\<close>, with \<open>currentDate\<close> and \<open>daySlotCounter\<close> passed on.\<close>

fun number_rows :: "string \<Rightarrow> int \<Rightarrow> session list \<Rightarrow> data_row list" where
  "number_rows currentDate daySlotCounter [] = []"
| "number_rows currentDate daySlotCounter (s # ss) =
     (if date s \<noteq> currentDate
      then make_row 1 s # number_rows (date s) 1 ss
      else make_row (daySlotCounter + 1) s # number_rows currentDate (daySlotCounter + 1) ss)"

definition dataRows :: "js_env \<Rightarrow> session list \<Rightarrow> squad \<Rightarrow> data_row list" where
  "dataRows env sessions squadId = number_rows [] 0 (sortedSessions env sessions squadId)"

definition columnHeaders :: "string list" where
  "columnHeaders = [''slot_number'', ''date'', ''from'', ''to'', ''course_id'', ''lu_id'', ''mentor_id'']"

text \<open>
  The array of arrays handed to \<open>aoa_to_sheet\<close>: the squad header row, the column headers
  and the data rows. The file name and the write are left out.
\<close>

definition exportToExcel :: "js_env \<Rightarrow> session list \<Rightarrow> squad \<Rightarrow> squad \<times> string list \<times> data_row list" where
  "exportToExcel env sessions squadId = (squadId, columnHeaders, dataRows env sessions squadId)"

text \<open>The order the specification names: the date by code units, then \<open>from\<close> as an integer.\<close>

definition row_before :: "data_row \<Rightarrow> data_row \<Rightarrow> bool" where
  "row_before r r' =
     (row_date r < row_date r' \<or>
      (row_date r = row_date r' \<and> the (parseInt (row_from r)) \<le> the (parseInt (row_from r'))))"

text \<open>The same order on sessions.\<close>

definition session_before :: "session \<Rightarrow> session \<Rightarrow> bool" where
  "session_before a b =
     (date a < date b \<or> (date a = date b \<and> the (parseInt (from' a)) \<le> the (parseInt (from' b))))"

text \<open>
  \<open>localeCompare\<close> orders the dates of the given sessions as their code units do. It
  does on dates in the form \<open>YYYY-MM-DD\<close>, where the first difference is between two digits.
\<close>

definition dates_collate :: "js_env \<Rightarrow> session list \<Rightarrow> bool" where
  "dates_collate env ss =
     (\<forall>a\<in>set ss. \<forall>b\<in>set ss. date a \<noteq> date b \<longrightarrow>
        (localeCompare env (date a) (date b) \<le> 0) = (date a < date b))"

text \<open>What a row carries of its session, and the same of a session.\<close>

definition row_payload :: "data_row \<Rightarrow> string \<times> string \<times> string \<times> string \<times> string \<times> string" where
  "row_payload r = (row_date r, row_from r, row_to r, row_course_id r, row_lu_id r, row_mentor_id r)"

definition session_payload :: "session \<Rightarrow> string \<times> string \<times> string \<times> string \<times> string \<times> string" where
  "session_payload s = (date s, from' s, to' s, course_id s, lu_id s, mentor_id s)"

subsection \<open>exportToExcel on a store\<close>

text \<open>
  Arrays and session objects live in a store, and an array holds references. \<open>filter\<close> and
  the spread \<open>[...filtered]\<close> allocate a new array each; \<open>sort\<close> writes into the array it
  is called on.
\<close>

datatype obj = ArrayObj "nat list" | SessionObj session

record heap =
  store :: "nat \<Rightarrow> obj option"
  next_addr :: nat

definition alloc :: "heap \<Rightarrow> obj \<Rightarrow> heap \<times> nat" where
  "alloc h v = (h\<lparr> store := (store h)(next_addr h \<mapsto> v), next_addr := Suc (next_addr h) \<rparr>, next_addr h)"

definition read_array :: "heap \<Rightarrow> nat \<Rightarrow> nat list option" where
  "read_array h a = (case store h a of Some (ArrayObj rs) \<Rightarrow> Some rs | _ \<Rightarrow> None)"

definition read_session :: "heap \<Rightarrow> nat \<Rightarrow> session option" where
  "read_session h r = (case store h r of Some (SessionObj s) \<Rightarrow> Some s | _ \<Rightarrow> None)"

text \<open>The sessions an array denotes, when every reference of it is a session object.\<close>

definition sessions_at :: "heap \<Rightarrow> nat \<Rightarrow> session list option" where
  "sessions_at h a = (case read_array h a of None \<Rightarrow> None | Some rs \<Rightarrow> those (map (read_session h) rs))"

text \<open>\<open>a.sort(cmp)\<close> in place, the comparator reading the objects behind the references.\<close>

definition sort_in_place :: "(session \<Rightarrow> session \<Rightarrow> int option) \<Rightarrow> heap \<Rightarrow> nat \<Rightarrow> heap" where
  "sort_in_place cmp h a =
     (case read_array h a of
        None \<Rightarrow> h
      | Some rs \<Rightarrow>
          h\<lparr> store := (store h)(a \<mapsto> ArrayObj
                (array_sort (\<lambda>x y. case (read_session h x, read_session h y) of
                                      (Some sx, Some sy) \<Rightarrow> cmp sx sy | _ \<Rightarrow> None) rs)) \<rparr>)"

text \<open>
  The export on the store: \<open>None\<close> when \<open>sessions\<close> is not an array of session objects,
  otherwise the store afterwards and the data rows.
\<close>

definition exportToExcel_heap :: "js_env \<Rightarrow> heap \<Rightarrow> nat \<Rightarrow> squad \<Rightarrow> (heap \<times> data_row list) option" where
  "exportToExcel_heap env h sessions_ref squadId =
     (case read_array h sessions_ref of
        None \<Rightarrow> None
      | Some rs \<Rightarrow>
          (case those (map (read_session h) rs) of
             None \<Rightarrow> None
           | Some ss \<Rightarrow>
               (let (h1, filtered) =
                      alloc h (ArrayObj (filter (\<lambda>r. case read_session h r of
                                                       Some s \<Rightarrow> squad_matches env squadId s
                                                     | None \<Rightarrow> False) rs));
                    (h2, sorted_ref) =
                      alloc h1 (ArrayObj (case read_array h1 filtered of Some fs \<Rightarrow> fs | None \<Rightarrow> []));
                    h3 = sort_in_place (compare_sessions env) h2 sorted_ref
                in (case sessions_at h3 sorted_ref of
                      None \<Rightarrow> None
                    | Some sorted_ss \<Rightarrow> Some (h3, number_rows [] 0 sorted_ss)))))"

text \<open>A store is well formed when nothing lives at or beyond the next free address.\<close>

definition heap_ok :: "heap \<Rightarrow> bool" where
  "heap_ok h = (\<forall>a. store h a \<noteq> None \<longrightarrow> a < next_addr h)"

subsection \<open>The state of the component and the placement operations\<close>

record app_state =
  sessions :: "session list"
  parkingLot :: "session list"
  selectedSquad :: squad

datatype drag_source = Timetable | Parking

definition initial_state :: app_state where
  "initial_state = \<lparr>sessions = [], parkingLot = [], selectedSquad = SquadNum 1\<rparr>"

text \<open>
  \<open>visibleDates\<close>: the distinct dates of the selected squad in the order of the default
  sort (by code units), or today alone. \<open>today\<close> is \<open>new Date().toISOString().split('T')[0]\<close>.
\<close>

definition visibleDates :: "js_env \<Rightarrow> string \<Rightarrow> app_state \<Rightarrow> string list" where
  "visibleDates env today st =
     (let squadSessions = filter (\<lambda>s. squad_text env (squad_number s) = squad_text env (selectedSquad st)) (sessions st);
          sessionDates = sort (remdups (map date squadSessions))
      in if length sessionDates = 0 then [today] else sessionDates)"

definition updatedSession :: "js_env \<Rightarrow> app_state \<Rightarrow> session \<Rightarrow> string \<Rightarrow> SlotDefinition \<Rightarrow> session" where
  "updatedSession env st draggedSession targetDate targetSlot =
     draggedSession\<lparr> squad_number := SquadStr (squad_text env (selectedSquad st)),
                     date := targetDate,
                     from' := slot_from targetSlot,
                     to' := slot_to targetSlot \<rparr>"

definition onDropToTimetable ::
  "js_env \<Rightarrow> app_state \<Rightarrow> session \<Rightarrow> drag_source \<Rightarrow> string \<Rightarrow> SlotDefinition \<Rightarrow> app_state" where
  "onDropToTimetable env st draggedSession source targetDate targetSlot =
     (if source = Parking
      then st\<lparr> parkingLot := filter (\<lambda>s. id' s \<noteq> id' draggedSession) (parkingLot st),
               sessions := sessions st @ [updatedSession env st draggedSession targetDate targetSlot] \<rparr>
      else st\<lparr> sessions :=
                 map (\<lambda>s. if id' s = id' draggedSession
                           then updatedSession env st draggedSession targetDate targetSlot else s)
                   (sessions st) \<rparr>)"

definition onDropToParking :: "app_state \<Rightarrow> session \<Rightarrow> drag_source \<Rightarrow> app_state" where
  "onDropToParking st draggedSession source =
     (if source = Timetable
      then st\<lparr> sessions := filter (\<lambda>s. id' s \<noteq> id' draggedSession) (sessions st),
               parkingLot := parkingLot st @ [draggedSession] \<rparr>
      else st)"

text \<open>The button of a staged card: \<open>setParkingLot(prev => prev.filter(s => s.id !== session.id))\<close>.\<close>

definition discard :: "app_state \<Rightarrow> session \<Rightarrow> app_state" where
  "discard st s = st\<lparr> parkingLot := filter (\<lambda>x. id' x \<noteq> id' s) (parkingLot st) \<rparr>"

text \<open>\<open>handleFileUpload\<close>: a rejected promise and an empty result leave the state as it is.\<close>

definition handleFileUpload :: "js_env \<Rightarrow> row list list \<Rightarrow> app_state \<Rightarrow> app_state" where
  "handleFileUpload env workbook st =
     (case parseExcelFile env workbook of
        Inl e \<Rightarrow> st
      | Inr data \<Rightarrow>
          if length data = 0 then st
          else st\<lparr> sessions := data, parkingLot := [], selectedSquad := squad_number (data ! 0) \<rparr>)"

text \<open>
  The states the interface can reach. A card is dragged from the collection that shows it,
  a grid cell is the cell of a visible date and a derived slot (\<open>today\<close> is the date part
  of an ISO time stamp and never empty), and \<open>navigateSquad\<close> selects a number of the
  squad list (any number is admitted here).
\<close>

inductive reachable :: "js_env \<Rightarrow> app_state \<Rightarrow> bool" for env :: js_env where
  start: "reachable env initial_state"
| upload: "reachable env st \<Longrightarrow> reachable env (handleFileUpload env workbook st)"
| navigate: "reachable env st \<Longrightarrow> reachable env (st\<lparr>selectedSquad := SquadNum q\<rparr>)"
| place_staged:
    "reachable env st \<Longrightarrow> s \<in> set (parkingLot st) \<Longrightarrow> today \<noteq> [] \<Longrightarrow>
     targetDate \<in> set (visibleDates env today st) \<Longrightarrow> targetSlot \<in> set (dynamicTimeSlots (sessions st)) \<Longrightarrow>
     reachable env (onDropToTimetable env st s Parking targetDate targetSlot)"
| place_placed:
    "reachable env st \<Longrightarrow> s \<in> set (sessions st) \<Longrightarrow> today \<noteq> [] \<Longrightarrow>
     targetDate \<in> set (visibleDates env today st) \<Longrightarrow> targetSlot \<in> set (dynamicTimeSlots (sessions st)) \<Longrightarrow>
     reachable env (onDropToTimetable env st s Timetable targetDate targetSlot)"
| stage: "reachable env st \<Longrightarrow> s \<in> set (sessions st) \<Longrightarrow> reachable env (onDropToParking st s Timetable)"
| remove: "reachable env st \<Longrightarrow> s \<in> set (parkingLot st) \<Longrightarrow> reachable env (discard st s)"

subsection \<open>Notions used in the statements\<close>

text \<open>A session with a start time and a date.\<close>

definition dated :: "session \<Rightarrow> bool" where
  "dated s = (from' s \<noteq> [] \<and> date s \<noteq> [])"

text \<open>A session that \<open>dynamicTimeSlots\<close> reads: both times are present.\<close>

definition usable :: "session \<Rightarrow> bool" where
  "usable s = (from' s \<noteq> [] \<and> to' s \<noteq> [])"

text \<open>The date of the last session of a list, empty for the empty list.\<close>

definition tracker_of :: "session list \<Rightarrow> string" where
  "tracker_of new = (if new = [] then [] else date (last new))"

text \<open>The order a comparator induces: \<open>a\<close> may stand before \<open>b\<close>.\<close>

definition cmp_le :: "('a \<Rightarrow> 'a \<Rightarrow> int option) \<Rightarrow> 'a \<Rightarrow> 'a \<Rightarrow> bool" where
  "cmp_le cmp a b = (cmp_value (cmp a b) \<le> 0)"

definition slot_of :: "(string \<times> string) list \<Rightarrow> string \<Rightarrow> SlotDefinition" where
  "slot_of slotMap f = \<lparr>slot_from = f, slot_to = (case map_of slotMap f of Some t \<Rightarrow> t | None \<Rightarrow> [])\<rparr>"

text \<open>
  Two strings are equal when case is ignored: they have the same length, and at each
  position the same code unit or a capital letter and its small letter (32 above it, for
  \<open>A\<close> to \<open>Z\<close> and for the capital letters of Latin-1).
\<close>

definition is_capital :: "char \<Rightarrow> bool" where
  "is_capital c = ((65 \<le> (of_char c :: nat) \<and> (of_char c :: nat) \<le> 90) \<or>
                   (192 \<le> (of_char c :: nat) \<and> (of_char c :: nat) \<le> 222 \<and> (of_char c :: nat) \<noteq> 215))"

definition same_letter :: "char \<Rightarrow> char \<Rightarrow> bool" where
  "same_letter c d =
     (c = d \<or> (is_capital c \<and> (of_char d :: nat) = of_char c + 32)
            \<or> (is_capital d \<and> (of_char c :: nat) = of_char d + 32))"

definition equal_ignoring_case :: "string \<Rightarrow> string \<Rightarrow> bool" where
  "equal_ignoring_case a b = list_all2 same_letter a b"

text \<open>The identifiers of the placed sessions and of the staged ones.\<close>

definition placed_ids :: "app_state \<Rightarrow> string set" where
  "placed_ids st = id' ` set (sessions st)"

definition staged_ids :: "app_state \<Rightarrow> string set" where
  "staged_ids st = id' ` set (parkingLot st)"

text \<open>
  An example sheet for squad 4: a session on the first of January, a row that names the
  second of January and has no start time, and a row with a blank date.
\<close>

definition day1_row :: row where
  "day1_row = [StrV [], StrV ''2024-01-01'', StrV ''0830'', StrV ''1030'', StrV ''Intro'']"

definition day2_heading_row :: row where
  "day2_heading_row = [StrV [], StrV ''2024-01-02'', StrV []]"

definition blank_date_row :: row where
  "blank_date_row = [StrV [], StrV [], StrV ''1030'', StrV ''1230'', StrV ''Advanced'']"

definition example_workbook :: "row list list" where
  "example_workbook = [[[StrV ''Squad 4''], day1_row, day2_heading_row, blank_date_row]]"

definition intro_session :: session where
  "intro_session =
     \<lparr> id' = ''s0'', squad_number = SquadStr ''4'', date = ''2024-01-01'', from' = ''0830'',
       to' = ''1030'', course_id = ''Intro'', lu_id = [], mentor_id = ''Unassigned'' \<rparr>"

definition advanced_session :: session where
  "advanced_session =
     \<lparr> id' = ''s1'', squad_number = SquadStr ''4'', date = ''2024-01-01'', from' = ''1030'',
       to' = ''1230'', course_id = ''Advanced'', lu_id = [], mentor_id = ''Unassigned'' \<rparr>"

text \<open>A session that has a start time and no end time.\<close>

definition open_ended_session :: session where
  "open_ended_session = intro_session\<lparr> id' := ''s2'', to' := [] \<rparr>"

text \<open>Sessions in mixed order, one slot written twice, one session without an end time.\<close>

definition example_sessions :: "session list" where
  "example_sessions =
     [advanced_session\<lparr> from' := ''1330'', to' := ''1530'' \<rparr>,
      intro_session,
      advanced_session\<lparr> from' := ''1330'', to' := ''1600'' \<rparr>,
      open_ended_session\<lparr> from' := ''0900'' \<rparr>]"

text \<open>The state after the example workbook has been uploaded.\<close>

definition example_state :: app_state where
  "example_state = handleFileUpload plain_env example_workbook initial_state"

text \<open>Sessions of two squads on two days, out of order.\<close>

definition export_example :: "session list" where
  "export_example =
     [advanced_session\<lparr> date := ''2024-01-02'', from' := ''1330'', to' := ''1530'' \<rparr>,
      intro_session\<lparr> date := ''2024-01-02'' \<rparr>,
      intro_session\<lparr> squad_number := SquadStr ''5'' \<rparr>,
      advanced_session\<lparr> date := ''2024-01-02'' \<rparr>,
      advanced_session]"

text \<open>A store with two session objects and the array of both.\<close>

definition example_heap :: heap where
  "example_heap =
     \<lparr> store = [0 \<mapsto> SessionObj advanced_session, 1 \<mapsto> SessionObj intro_session, 2 \<mapsto> ArrayObj [0, 1]],
       next_addr = 3 \<rparr>"

text \<open>The first example session after a move to the slot 1330-1530 of the second of January.\<close>

definition moved_session :: session where
  "moved_session = intro_session\<lparr> date := ''2024-01-02'', from' := ''1330'', to' := ''1530'' \<rparr>"

text \<open>
  An environment whose \<open>localeCompare\<close> ranks letters before their case, a small letter
  before its capital, as the collation of the engines does: \<open>tbd\<close> stands before \<open>TBD\<close>.
\<close>

definition collating_env :: js_env where
  "collating_env =
     plain_env\<lparr> localeCompare :=
       (\<lambda>a b. if toLowerCase a < toLowerCase b then - 1
               else if toLowerCase b < toLowerCase a then 1
               else if a = b then 0
               else if b < a then - 1 else 1) \<rparr>"

text \<open>Two sessions whose date cells held text that is no date.\<close>

definition tbd_sessions :: "session list" where
  "tbd_sessions = [intro_session\<lparr> date := ''TBD'' \<rparr>, advanced_session\<lparr> date := ''tbd'' \<rparr>]"

text \<open>
  A sheet of one day whose second start time is the text \<open>-:30\<close>, and the rows exported
  for squad 4 after its import.
\<close>

definition odd_time_workbook :: "row list list" where
  "odd_time_workbook =
     [[[StrV ''Squad 4''],
       [StrV [], StrV ''2024-01-01'', StrV ''1030'', StrV ''1230''],
       [StrV [], StrV [], StrV ''-:30'', StrV []],
       [StrV [], StrV [], StrV ''0830'', StrV ''1030'']]]"

definition odd_time_rows :: "data_row list" where
  "odd_time_rows =
     (case parseExcelFile plain_env odd_time_workbook of
        Inl e \<Rightarrow> []
      | Inr data \<Rightarrow> snd (snd (exportToExcel plain_env data (SquadNum 4))))"

section \<open>Properties\<close>

subsection \<open>normalizeTime\<close>

lemma format_hm_13_30: "format_hm (Some 13, Some 30) = ''1330''"
  by code_simp

text \<open>
  Claim C1. Every input that denotes the wall-clock time 13:30 is normalized to \<open>1330\<close>: a
  date-time value whose local hour is 13 and whose local minute is 30, the strings
  \<open>1:30 PM\<close> and \<open>13:30\<close>, the number 1330 and the fraction 0.5625.
\<close>

theorem normalizeTime_1330:
  assumes "getHours d = 13" and "getMinutes d = 30"
  shows "normalizeTime env (DateV (Some d)) = ''1330'' \<and>
         normalizeTime env (StrV ''1:30 PM'') = ''1330'' \<and>
         normalizeTime env (StrV ''13:30'') = ''1330'' \<and>
         normalizeTime env (NumV 1330) = ''1330'' \<and>
         normalizeTime env (NumV 0.5625) = ''1330''"
proof -
  have date_time: "normalizeTime env (DateV (Some d)) = ''1330''"
    using assms by (simp add: normalizeTime_def is_blank_def format_hm_13_30)
  have pm: "normalizeTime env (StrV ''1:30 PM'') = ''1330''"
    by code_simp
  have colon: "normalizeTime env (StrV ''13:30'') = ''1330''"
    by code_simp
  have num: "normalizeTime env (NumV 1330) = ''1330''"
    by code_simp
  have frac: "normalizeTime env (NumV 0.5625) = ''1330''"
    by code_simp
  from date_time pm colon num frac show ?thesis by simp
qed

theorem normalizeTime_1330_witness:
  "normalizeTime plain_env
     (DateV (Some \<lparr>getHours = 13, getMinutes = 30, toISOString = ''2024-03-05T08:00:00.000Z'',
                    dateText = ''Tue Mar 05 2024 13:30:00 GMT+0530''\<rparr>)) = ''1330''"
  using normalizeTime_1330 [of "\<lparr>getHours = 13, getMinutes = 30, toISOString = ''2024-03-05T08:00:00.000Z'',
                    dateText = ''Tue Mar 05 2024 13:30:00 GMT+0530''\<rparr>" plain_env]
  by simp

text \<open>
  Claim C5 says that every result of \<open>normalizeTime\<close> is empty or four digits \<open>HHmm\<close> with
  the hour below 24 and the minute below 60. The function does not keep to that: the final
  \<open>% 24\<close> and \<open>% 60\<close> leave \<open>NaN\<close> and negative numbers as they are. The cell text
  \<open>10 - 12\<close> gives \<open>10NaN\<close>, the text \<open>-5\<close> gives \<open>00-5\<close>, and a \<open>Date\<close> without a time
  value gives \<open>NaNNaN\<close>.
\<close>

theorem normalizeTime_not_railway_time:
  "normalizeTime env (StrV ''10 - 12'') = ''10NaN'' \<and>
   normalizeTime env (StrV ''-5'') = ''00-5'' \<and>
   normalizeTime env (DateV None) = ''NaNNaN''"
proof -
  have range_text: "normalizeTime env (StrV ''10 - 12'') = ''10NaN''" by code_simp
  have negative: "normalizeTime env (StrV ''-5'') = ''00-5''" by code_simp
  have invalid: "normalizeTime env (DateV None) = ''NaNNaN''" by code_simp
  from range_text negative invalid show ?thesis by simp
qed

subsection \<open>normalizeDate\<close>

lemma split_on_not_Nil: "split_on c s \<noteq> []"
  by (induction s) (auto split: list.splits)

text \<open>On a string the function never throws, and an empty string gives the empty date.\<close>

lemma normalizeDate_text:
  "normalizeDate env (StrV s) = Inr (if s = [] then [] else date_of_text env s)"
  by (simp add: normalizeDate_def)

text \<open>A string that is neither \<open>YYYY-MM-DD\<close> nor a date for \<open>new Date\<close> comes back trimmed.\<close>

lemma normalizeDate_fallback:
  assumes "\<not> is_iso_date (trim s)" and "newDate env (trim s) = None" and "s \<noteq> []"
  shows "normalizeDate env (StrV s) = Inr (trim s)"
  using assms by (simp add: normalizeDate_def date_of_text_def)

text \<open>
  Claim C9 says that \<open>normalizeDate\<close> never raises, for every input. It does on strings
  (the two lemmas above), where \<open>toISOString\<close> stands behind the guard
  \<open>!isNaN(d.getTime())\<close>; the branch for \<open>Date\<close> objects calls \<open>toISOString\<close> with no such
  guard, and on a \<open>Date\<close> whose time value is \<open>NaN\<close> that call throws a \<open>RangeError\<close>.
\<close>

theorem normalizeDate_invalid_date_throws:
  "normalizeDate env (DateV None) = Inl RangeError"
  by (simp add: normalizeDate_def)

subsection \<open>The import\<close>

lemma make_session_fields [simp]:
  "date (make_session env sq n r d f t) = d"
  "from' (make_session env sq n r d f t) = f"
  "to' (make_session env sq n r d f t) = t"
  "squad_number (make_session env sq n r d f t) = SquadStr sq"
  "id' (make_session env sq n r d f t) = randomId env n"
  by (simp_all add: make_session_def)

lemma row_step_result:
  assumes "row_step env sq r (l, acc, n) = Inr (l', acc', n')"
  shows "(l' = l \<and> acc' = acc \<and> n' = n) \<or>
         (\<exists>s. date s = l' \<and> l' \<noteq> [] \<and> from' s \<noteq> [] \<and> acc' = acc @ [s] \<and> n' = Suc n)"
  using assms
  by (auto simp: row_step_def Let_def split: if_splits sum.splits)

lemma row_step_dated:
  assumes "row_step env sq r (l, acc, n) = Inr (l', acc', n')" and "list_all dated acc"
  shows "list_all dated acc'"
  using row_step_result [OF assms(1)] assms(2) by (auto simp: dated_def)

lemma row_step_tracker:
  assumes "row_step env sq r (l, acc @ new, n) = Inr (l', acc', n')" and "l = tracker_of new"
  shows "\<exists>new'. acc' = acc @ new' \<and> l' = tracker_of new'"
proof -
  from row_step_result [OF assms(1)] consider
    (same) "l' = l" "acc' = acc @ new"
    | (pushed) s where "date s = l'" "acc' = (acc @ new) @ [s]"
    by blast
  then show ?thesis
  proof cases
    case same
    with assms(2) show ?thesis by blast
  next
    case (pushed s)
    then have "acc' = acc @ (new @ [s]) \<and> l' = tracker_of (new @ [s])"
      by (simp add: tracker_of_def)
    then show ?thesis by blast
  qed
qed

lemma sheet_rows_dated:
  assumes "sheet_rows env sq rs st = Inr st'" and "list_all dated (fst (snd st))"
  shows "list_all dated (fst (snd st'))"
  using assms
proof (induction rs arbitrary: st)
  case Nil
  then show ?case by simp
next
  case (Cons r rs)
  from Cons.prems(1) obtain st1 where st1: "row_step env sq r st = Inr st1"
    and rest: "sheet_rows env sq rs st1 = Inr st'"
    by (auto split: sum.splits)
  obtain l acc n where st: "st = (l, acc, n)" by (cases st) auto
  obtain l1 acc1 n1 where st1': "st1 = (l1, acc1, n1)" by (cases st1) auto
  from st1 st st1' Cons.prems(2) have "list_all dated acc1"
    using row_step_dated [of env sq r l acc n l1 acc1 n1] by simp
  with Cons.IH [OF rest] st1' show ?case by simp
qed

lemma sheet_rows_tracker:
  assumes "sheet_rows env sq rs (l, acc @ new, n) = Inr (l', acc', n')" and "l = tracker_of new"
  shows "\<exists>new'. acc' = acc @ new' \<and> l' = tracker_of new'"
  using assms
proof (induction rs arbitrary: l new n)
  case Nil
  then show ?case by auto
next
  case (Cons r rs)
  from Cons.prems(1) obtain l1 acc1 n1 where st1: "row_step env sq r (l, acc @ new, n) = Inr (l1, acc1, n1)"
    and rest: "sheet_rows env sq rs (l1, acc1, n1) = Inr (l', acc', n')"
    by (auto split: sum.splits)
  from row_step_tracker [OF st1 Cons.prems(2)] obtain new1 where
    new1: "acc1 = acc @ new1" "l1 = tracker_of new1" by blast
  from Cons.IH [of l1 new1 n1] rest new1 show ?case by simp
qed

lemma parse_sheet_result:
  assumes "parse_sheet env rawData acc = Inr acc'"
  shows "acc' = acc \<or>
         (\<exists>sq l n. sheet_rows env sq (tl rawData) ([], fst acc, snd acc) = Inr (l, fst acc', n))"
  using assms unfolding parse_sheet_def Let_def
  by (auto split: if_splits sum.splits)

lemma parse_sheet_dated:
  assumes "parse_sheet env rawData acc = Inr acc'" and "list_all dated (fst acc)"
  shows "list_all dated (fst acc')"
  using parse_sheet_result [OF assms(1)] assms(2) sheet_rows_dated by fastforce

lemma parse_sheets_dated:
  assumes "parse_sheets env shs acc = Inr acc'" and "list_all dated (fst acc)"
  shows "list_all dated (fst acc')"
  using assms
proof (induction shs arbitrary: acc)
  case Nil
  then show ?case by simp
next
  case (Cons sh shs)
  from Cons.prems(1) obtain acc1 where a: "parse_sheet env sh acc = Inr acc1"
    and b: "parse_sheets env shs acc1 = Inr acc'"
    by (auto split: sum.splits)
  from parse_sheet_dated [OF a Cons.prems(2)] Cons.IH [OF b] show ?case by simp
qed

lemma parseExcelFile_dated:
  assumes "parseExcelFile env workbook = Inr data"
  shows "list_all dated data"
proof -
  from assms obtain n where "parse_sheets env workbook ([], 0) = Inr (data, n)"
    by (auto simp: parseExcelFile_def split: sum.splits)
  from parse_sheets_dated [OF this] show ?thesis by simp
qed

text \<open>
  Claim C2 says that a row with a blank date takes the most recently resolved date of its
  sheet, the tracker holding the resolved date of every earlier row that resolved one. The
  tracker is written only inside \<open>if (fromTime && sessionDate)\<close>, so a row that resolves a
  date and has no start time leaves it as it was. In the example sheet the third row is
  dated the first of January, though the row above it resolved the second.
\<close>

theorem tracker_skips_rows_without_session:
  "map_sum id (map date)
     (parseExcelFile plain_env example_workbook)
     = Inr [''2024-01-01'', ''2024-01-01''] \<and>
   sheet_rows plain_env ''4'' [day1_row, day2_heading_row] ([], [], 0)
     = Inr (''2024-01-01'', [intro_session], 1) \<and>
   spec_lastSeenDate plain_env [day1_row, day2_heading_row] [] = ''2024-01-02''"
proof -
  have a: "map_sum id (map date)
     (parseExcelFile plain_env example_workbook)
     = Inr [''2024-01-01'', ''2024-01-01'']"
    by code_simp
  have b: "sheet_rows plain_env ''4'' [day1_row, day2_heading_row] ([], [], 0)
     = Inr (''2024-01-01'', [intro_session], 1)"
    by code_simp
  have c: "spec_lastSeenDate plain_env [day1_row, day2_heading_row] [] = ''2024-01-02''"
    by code_simp
  from a b c show ?thesis by simp
qed

text \<open>
  Claim C2, amended. After any rows of a sheet the tracker is the date of the last session
  that the sheet has produced so far, and empty when it has produced none. A row that is
  not skipped and whose date cell normalizes to the empty string resolves that date; when
  it has a start time and the tracker is not empty, the session built from it carries the
  tracker's date, and otherwise the row adds nothing.
\<close>

theorem blank_date_takes_last_session_date:
  assumes "sheet_rows env squad earlier ([], acc, n) = Inr (lastDate, acc', n')"
    and "3 \<le> length r" and "\<not> is_label_row env r"
    and "normalizeDate env (cell_at r 1) = Inr []"
  shows "(\<exists>new. acc' = acc @ new \<and> lastDate = (if new = [] then [] else date (last new))) \<and>
         row_step env squad r (lastDate, acc', n') =
           Inr (if normalizeTime env (cell_at r 2) \<noteq> [] \<and> lastDate \<noteq> []
                then (lastDate,
                      acc' @ [make_session env squad n' r lastDate
                                (normalizeTime env (cell_at r 2)) (normalizeTime env (cell_at r 3))],
                      Suc n')
                else (lastDate, acc', n')) \<and>
         date (make_session env squad n' r lastDate
                 (normalizeTime env (cell_at r 2)) (normalizeTime env (cell_at r 3))) = lastDate"
proof -
  have "sheet_rows env squad earlier ([], acc @ [], n) = Inr (lastDate, acc', n')"
    using assms(1) by simp
  from sheet_rows_tracker [OF this] have tracked:
    "\<exists>new. acc' = acc @ new \<and> lastDate = (if new = [] then [] else date (last new))"
    by (simp add: tracker_of_def)
  have step: "row_step env squad r (lastDate, acc', n') =
           Inr (if normalizeTime env (cell_at r 2) \<noteq> [] \<and> lastDate \<noteq> []
                then (lastDate,
                      acc' @ [make_session env squad n' r lastDate
                                (normalizeTime env (cell_at r 2)) (normalizeTime env (cell_at r 3))],
                      Suc n')
                else (lastDate, acc', n'))"
    using assms(2-4) by (simp add: row_step_def Let_def)
  from tracked step show ?thesis by simp
qed

theorem blank_date_takes_last_session_date_witness:
  "(\<exists>new. [intro_session] = [] @ new \<and> ''2024-01-01'' = (if new = [] then [] else date (last new))) \<and>
   row_step plain_env ''4'' blank_date_row (''2024-01-01'', [intro_session], 1) =
     Inr (if normalizeTime plain_env (cell_at blank_date_row 2) \<noteq> [] \<and> ''2024-01-01'' \<noteq> []
          then (''2024-01-01'',
                [intro_session] @ [make_session plain_env ''4'' 1 blank_date_row ''2024-01-01''
                          (normalizeTime plain_env (cell_at blank_date_row 2))
                          (normalizeTime plain_env (cell_at blank_date_row 3))],
                Suc 1)
          else (''2024-01-01'', [intro_session], 1)) \<and>
   date (make_session plain_env ''4'' 1 blank_date_row ''2024-01-01''
           (normalizeTime plain_env (cell_at blank_date_row 2))
           (normalizeTime plain_env (cell_at blank_date_row 3))) = ''2024-01-01''"
proof -
  have earlier: "sheet_rows plain_env ''4'' [day1_row] ([], [], 0) = Inr (''2024-01-01'', [intro_session], 1)"
    by code_simp
  have long: "3 \<le> length blank_date_row"
    by (simp add: blank_date_row_def)
  have data: "\<not> is_label_row plain_env blank_date_row"
    by code_simp
  have blank: "normalizeDate plain_env (cell_at blank_date_row 1) = Inr []"
    by code_simp
  show ?thesis
    by (rule blank_date_takes_last_session_date [OF earlier long data blank])
qed

subsection \<open>Sorting\<close>

lemma mset_insert_sorted: "mset (insert_sorted cmp x ys) = add_mset x (mset ys)"
  by (induction ys) auto

lemma mset_array_sort: "mset (array_sort cmp xs) = mset xs"
  by (induction xs) (auto simp: array_sort_def mset_insert_sorted)

lemma set_array_sort: "set (array_sort cmp xs) = set xs"
  by (rule mset_eq_setD) (rule mset_array_sort)

lemma length_array_sort: "length (array_sort cmp xs) = length xs"
  by (rule mset_eq_length) (rule mset_array_sort)

lemma distinct_array_sort: "distinct (array_sort cmp xs) = distinct xs"
  by (rule mset_eq_imp_distinct_iff) (rule mset_array_sort)

lemma set_insert_sorted: "set (insert_sorted cmp x ys) = insert x (set ys)"
  by (induction ys) auto

lemma insert_sorted_Cons:
  "insert_sorted cmp x (y # ys) =
     (if cmp_le cmp x y then x # y # ys else y # insert_sorted cmp x ys)"
  by (simp add: cmp_le_def)

lemma sorted_insert_sorted:
  assumes "sorted_wrt (cmp_le cmp) ys"
    and total: "\<And>y. y \<in> set ys \<Longrightarrow> cmp_le cmp x y \<or> cmp_le cmp y x"
    and trans: "\<And>y z. y \<in> set ys \<Longrightarrow> z \<in> set ys \<Longrightarrow> cmp_le cmp x y \<Longrightarrow> cmp_le cmp y z \<Longrightarrow> cmp_le cmp x z"
  shows "sorted_wrt (cmp_le cmp) (insert_sorted cmp x ys)"
  using assms
proof (induction ys)
  case Nil
  then show ?case by simp
next
  case (Cons y ys)
  have sorted_ys: "sorted_wrt (cmp_le cmp) ys" and y_first: "\<forall>z\<in>set ys. cmp_le cmp y z"
    using Cons.prems(1) by simp_all
  show ?case
  proof (cases "cmp_le cmp x y")
    case True
    have "\<forall>z\<in>set ys. cmp_le cmp x z"
    proof
      fix z assume z: "z \<in> set ys"
      with y_first have "cmp_le cmp y z" by simp
      with True z show "cmp_le cmp x z" using Cons.prems(3) [of y z] by simp
    qed
    with True Cons.prems(1) show ?thesis
      by (simp add: insert_sorted_Cons del: insert_sorted.simps)
  next
    case False
    then have yx: "cmp_le cmp y x" using Cons.prems(2) [of y] by simp
    have rest: "sorted_wrt (cmp_le cmp) (insert_sorted cmp x ys)"
    proof (rule Cons.IH [OF sorted_ys])
      fix u assume "u \<in> set ys"
      then show "cmp_le cmp x u \<or> cmp_le cmp u x" using Cons.prems(2) [of u] by simp
    next
      fix u z assume "u \<in> set ys" "z \<in> set ys" "cmp_le cmp x u" "cmp_le cmp u z"
      then show "cmp_le cmp x z" using Cons.prems(3) [of u z] by simp
    qed
    have "\<forall>z\<in>set (insert_sorted cmp x ys). cmp_le cmp y z"
      using yx y_first by (simp add: set_insert_sorted)
    with False rest show ?thesis
      by (simp add: insert_sorted_Cons del: insert_sorted.simps)
  qed
qed

lemma sorted_array_sort:
  assumes total: "\<And>x y. x \<in> set xs \<Longrightarrow> y \<in> set xs \<Longrightarrow> cmp_le cmp x y \<or> cmp_le cmp y x"
    and trans: "\<And>x y z. x \<in> set xs \<Longrightarrow> y \<in> set xs \<Longrightarrow> z \<in> set xs \<Longrightarrow>
                  cmp_le cmp x y \<Longrightarrow> cmp_le cmp y z \<Longrightarrow> cmp_le cmp x z"
  shows "sorted_wrt (cmp_le cmp) (array_sort cmp xs)"
  using assms
proof (induction xs)
  case Nil
  show ?case by (simp add: array_sort_def)
next
  case (Cons x xs)
  have IH: "sorted_wrt (cmp_le cmp) (array_sort cmp xs)"
  proof (rule Cons.IH)
    fix u v assume "u \<in> set xs" "v \<in> set xs"
    then show "cmp_le cmp u v \<or> cmp_le cmp v u"
      using Cons.prems(1) [of u v] by simp
  next
    fix u v w assume "u \<in> set xs" "v \<in> set xs" "w \<in> set xs" "cmp_le cmp u v" "cmp_le cmp v w"
    then show "cmp_le cmp u w"
      using Cons.prems(2) [of u v w] by simp
  qed
  have "sorted_wrt (cmp_le cmp) (insert_sorted cmp x (array_sort cmp xs))"
  proof (rule sorted_insert_sorted [OF IH])
    fix y assume "y \<in> set (array_sort cmp xs)"
    then show "cmp_le cmp x y \<or> cmp_le cmp y x"
      using Cons.prems(1) [of x y] by (simp add: set_array_sort)
  next
    fix y z assume "y \<in> set (array_sort cmp xs)" "z \<in> set (array_sort cmp xs)"
      "cmp_le cmp x y" "cmp_le cmp y z"
    then show "cmp_le cmp x z"
      using Cons.prems(2) [of x y z] by (simp add: set_array_sort)
  qed
  then show ?case by (simp add: array_sort_def)
qed

subsection \<open>The slot map and dynamicTimeSlots\<close>

lemma map_of_slotMap_set: "map_of (slotMap_set k v m) = (map_of m)(k \<mapsto> v)"
  by (induction m) (auto simp: fun_eq_iff)

lemma fill_slotMap_snoc:
  "fill_slotMap (ss @ [s]) =
     (if usable s then slotMap_set (from' s) (to' s) (fill_slotMap ss) else fill_slotMap ss)"
  by (simp add: fill_slotMap_def usable_def)

lemma fill_slotMap_Nil: "fill_slotMap [] = []"
  by (simp add: fill_slotMap_def)

lemma key_set_slotMap_set: "fst ` set (slotMap_set k v m) = insert k (fst ` set m)"
  by (induction m) auto

lemma distinct_slotMap_set: "distinct (map fst (slotMap_set k v m)) = distinct (map fst m)"
  by (induction m) (auto simp: key_set_slotMap_set)

lemma key_set_fill_slotMap: "fst ` set (fill_slotMap ss) = from' ` set (filter usable ss)"
proof (induction ss rule: rev_induct)
  case Nil
  then show ?case by (simp add: fill_slotMap_Nil)
next
  case (snoc s ss)
  then show ?case
    by (simp add: fill_slotMap_snoc key_set_slotMap_set)
qed

lemma distinct_fill_slotMap: "distinct (map fst (fill_slotMap ss))"
proof (induction ss rule: rev_induct)
  case Nil
  then show ?case by (simp add: fill_slotMap_Nil)
next
  case (snoc s ss)
  then show ?case
    by (simp add: fill_slotMap_snoc distinct_slotMap_set)
qed

lemma map_of_fill_slotMap:
  "map_of (fill_slotMap ss) k =
     (if filter (\<lambda>s. from' s = k) (filter usable ss) = [] then None
      else Some (to' (last (filter (\<lambda>s. from' s = k) (filter usable ss)))))"
proof (induction ss rule: rev_induct)
  case Nil
  then show ?case by (simp add: fill_slotMap_Nil)
next
  case (snoc s ss)
  then show ?case
    by (simp add: fill_slotMap_snoc map_of_slotMap_set)
qed

lemma fill_slotMap_empty: "(fill_slotMap ss = []) = (filter usable ss = [])"
proof -
  have "(fill_slotMap ss = []) = (fst ` set (fill_slotMap ss) = {})" by simp
  also have "\<dots> = (filter usable ss = [])"
    by (auto simp: key_set_fill_slotMap filter_empty_conv)
  finally show ?thesis .
qed

lemma cmp_le_compare_from:
  assumes "parseInt a \<noteq> None" and "parseInt b \<noteq> None"
  shows "cmp_le compare_from a b = (the (parseInt a) \<le> the (parseInt b))"
  using assms by (auto simp: cmp_le_def compare_from_def cmp_value_def)

lemma sorted_from_keys:
  assumes "\<forall>k\<in>set ks. parseInt k \<noteq> None"
  shows "sorted_wrt (\<lambda>a b. the (parseInt a) \<le> the (parseInt b)) (array_sort compare_from ks)"
proof -
  have "sorted_wrt (cmp_le compare_from) (array_sort compare_from ks)"
  proof (rule sorted_array_sort)
    fix x y assume "x \<in> set ks" "y \<in> set ks"
    with assms show "cmp_le compare_from x y \<or> cmp_le compare_from y x"
      by (auto simp: cmp_le_compare_from)
  next
    fix x y z assume "x \<in> set ks" "y \<in> set ks" "z \<in> set ks"
      "cmp_le compare_from x y" "cmp_le compare_from y z"
    with assms show "cmp_le compare_from x z"
      by (auto simp: cmp_le_compare_from)
  qed
  then show ?thesis
  proof (rule sorted_wrt_mono_rel [rotated])
    fix a b assume "a \<in> set (array_sort compare_from ks)" "b \<in> set (array_sort compare_from ks)"
      "cmp_le compare_from a b"
    with assms show "the (parseInt a) \<le> the (parseInt b)"
      by (simp add: set_array_sort cmp_le_compare_from)
  qed
qed

lemma dynamicTimeSlots_unfold:
  "dynamicTimeSlots ss =
     (if filter usable ss = [] then defaultSlots
      else map (slot_of (fill_slotMap ss)) (array_sort compare_from (map fst (fill_slotMap ss))))"
  using fill_slotMap_empty [of ss]
  by (auto simp: dynamicTimeSlots_def Let_def slot_of_def)

lemma slot_from_slot_of [simp]: "slot_from (slot_of m f) = f"
  by (simp add: slot_of_def)

lemma slot_from_dynamicTimeSlots:
  assumes "filter usable ss \<noteq> []"
  shows "map slot_from (dynamicTimeSlots ss) = array_sort compare_from (map fst (fill_slotMap ss))"
  using assms by (simp add: dynamicTimeSlots_unfold comp_def)

lemma slot_to_of_key:
  assumes "f \<in> from' ` set (filter usable ss)"
  shows "slot_to (slot_of (fill_slotMap ss) f) = to' (last (filter (\<lambda>s. from' s = f) (filter usable ss)))"
proof -
  from assms have "filter (\<lambda>s. from' s = f) (filter usable ss) \<noteq> []"
    by (auto simp: filter_empty_conv)
  then show ?thesis
    by (simp add: slot_of_def map_of_fill_slotMap)
qed

text \<open>
  Claim C4 says that \<open>dynamicTimeSlots\<close> returns one slot for each distinct non-empty \<open>from\<close>
  of the list. The loop reads a session only under \<open>if (s.from && s.to)\<close>: a session with a
  start time and no end time adds no slot. For such a session alone the result is the four
  default slots, where the wording of the specification gives the one slot of its \<open>from\<close>.
\<close>

theorem open_ended_session_gives_no_slot:
  "from' open_ended_session \<noteq> [] \<and>
   dynamicTimeSlots [open_ended_session] = defaultSlots \<and>
   spec_deriveSlots [open_ended_session] = [\<lparr>slot_from = ''0830'', slot_to = []\<rparr>]"
proof -
  have a: "from' open_ended_session \<noteq> []" by code_simp
  have b: "dynamicTimeSlots [open_ended_session] = defaultSlots" by code_simp
  have c: "spec_deriveSlots [open_ended_session] = [\<lparr>slot_from = ''0830'', slot_to = []\<rparr>]" by code_simp
  from a b c show ?thesis by simp
qed

text \<open>
  Claim C4, amended. Among the sessions whose \<open>from\<close> and \<open>to\<close> are both non-empty,
  \<open>dynamicTimeSlots\<close> returns one slot for each distinct \<open>from\<close>, its \<open>to\<close> taken from the
  last such session with that \<open>from\<close>; when every such \<open>from\<close> is a numeral for \<open>parseInt\<close>
  the slots ascend by its integer value. When there is no such session the result is the
  four default slots in their order.
\<close>

theorem dynamicTimeSlots_usable_sessions:
  "(filter (\<lambda>s. from' s \<noteq> [] \<and> to' s \<noteq> []) ss = [] \<longrightarrow>
      dynamicTimeSlots ss = defaultSlots) \<and>
   (filter (\<lambda>s. from' s \<noteq> [] \<and> to' s \<noteq> []) ss \<noteq> [] \<longrightarrow>
      distinct (map slot_from (dynamicTimeSlots ss)) \<and>
      set (map slot_from (dynamicTimeSlots ss)) =
        from' ` set (filter (\<lambda>s. from' s \<noteq> [] \<and> to' s \<noteq> []) ss) \<and>
      (\<forall>sl\<in>set (dynamicTimeSlots ss).
         slot_to sl = to' (last (filter (\<lambda>s. from' s = slot_from sl)
                                   (filter (\<lambda>s. from' s \<noteq> [] \<and> to' s \<noteq> []) ss)))) \<and>
      ((\<forall>s\<in>set (filter (\<lambda>s. from' s \<noteq> [] \<and> to' s \<noteq> []) ss). parseInt (from' s) \<noteq> None) \<longrightarrow>
         sorted_wrt (\<lambda>a b. the (parseInt (slot_from a)) \<le> the (parseInt (slot_from b)))
           (dynamicTimeSlots ss)))"
proof -
  have u: "(\<lambda>s. from' s \<noteq> [] \<and> to' s \<noteq> []) = usable"
    by (simp add: usable_def fun_eq_iff)
  have none: "dynamicTimeSlots ss = defaultSlots" if "filter usable ss = []"
    using that by (simp add: dynamicTimeSlots_unfold)
  have some: "distinct (map slot_from (dynamicTimeSlots ss)) \<and>
      set (map slot_from (dynamicTimeSlots ss)) = from' ` set (filter usable ss) \<and>
      (\<forall>sl\<in>set (dynamicTimeSlots ss).
         slot_to sl = to' (last (filter (\<lambda>s. from' s = slot_from sl) (filter usable ss)))) \<and>
      ((\<forall>s\<in>set (filter usable ss). parseInt (from' s) \<noteq> None) \<longrightarrow>
         sorted_wrt (\<lambda>a b. the (parseInt (slot_from a)) \<le> the (parseInt (slot_from b)))
           (dynamicTimeSlots ss))"
    if ne: "filter usable ss \<noteq> []"
  proof -
    let ?m = "fill_slotMap ss"
    let ?ks = "array_sort compare_from (map fst ?m)"
    have froms: "map slot_from (dynamicTimeSlots ss) = ?ks"
      by (rule slot_from_dynamicTimeSlots [OF ne])
    have keys: "set ?ks = from' ` set (filter usable ss)"
      using key_set_fill_slotMap [of ss] by (simp add: set_array_sort)
    have d: "distinct (map slot_from (dynamicTimeSlots ss))"
      unfolding froms by (simp add: distinct_array_sort distinct_fill_slotMap)
    have s: "set (map slot_from (dynamicTimeSlots ss)) = from' ` set (filter usable ss)"
      unfolding froms by (rule keys)
    have t: "\<forall>sl\<in>set (dynamicTimeSlots ss).
         slot_to sl = to' (last (filter (\<lambda>s. from' s = slot_from sl) (filter usable ss)))"
    proof
      fix sl assume "sl \<in> set (dynamicTimeSlots ss)"
      with ne obtain f where f: "f \<in> set ?ks" and sl: "sl = slot_of ?m f"
        by (auto simp: dynamicTimeSlots_unfold)
      from f keys have "f \<in> from' ` set (filter usable ss)" by simp
      from slot_to_of_key [OF this] sl
      show "slot_to sl = to' (last (filter (\<lambda>s. from' s = slot_from sl) (filter usable ss)))"
        by simp
    qed
    have o: "sorted_wrt (\<lambda>a b. the (parseInt (slot_from a)) \<le> the (parseInt (slot_from b)))
           (dynamicTimeSlots ss)"
      if p: "\<forall>s\<in>set (filter usable ss). parseInt (from' s) \<noteq> None"
    proof -
      have "\<forall>k\<in>set (map fst ?m). parseInt k \<noteq> None"
        using p key_set_fill_slotMap [of ss] by auto
      from sorted_from_keys [OF this]
      have "sorted_wrt (\<lambda>a b. the (parseInt a) \<le> the (parseInt b)) (map slot_from (dynamicTimeSlots ss))"
        unfolding froms .
      then show ?thesis by (simp add: sorted_wrt_map)
    qed
    from d s t o show ?thesis by blast
  qed
  from none some show ?thesis unfolding u by blast
qed

theorem dynamicTimeSlots_usable_sessions_witness:
  "distinct (map slot_from (dynamicTimeSlots example_sessions)) \<and>
   set (map slot_from (dynamicTimeSlots example_sessions)) = {''0830'', ''1330''} \<and>
   sorted_wrt (\<lambda>a b. the (parseInt (slot_from a)) \<le> the (parseInt (slot_from b)))
     (dynamicTimeSlots example_sessions)"
proof -
  have some: "filter (\<lambda>s. from' s \<noteq> [] \<and> to' s \<noteq> []) example_sessions \<noteq> []"
    by code_simp
  have froms: "from' ` set (filter (\<lambda>s. from' s \<noteq> [] \<and> to' s \<noteq> []) example_sessions) = {''0830'', ''1330''}"
    by code_simp
  have numerals: "\<forall>s\<in>set (filter (\<lambda>s. from' s \<noteq> [] \<and> to' s \<noteq> []) example_sessions). parseInt (from' s) \<noteq> None"
    by code_simp
  from dynamicTimeSlots_usable_sessions [of example_sessions] some froms numerals
  show ?thesis by simp
qed

subsection \<open>Placement\<close>

lemma defaultSlots_from: "sl \<in> set defaultSlots \<Longrightarrow> slot_from sl \<noteq> []"
  by (auto simp: defaultSlots_def)

lemma dynamicTimeSlots_from_nonempty:
  assumes "sl \<in> set (dynamicTimeSlots ss)"
  shows "slot_from sl \<noteq> []"
proof (cases "filter usable ss = []")
  case True
  with assms show ?thesis by (simp add: dynamicTimeSlots_unfold defaultSlots_from)
next
  case False
  with assms have "slot_from sl \<in> set (array_sort compare_from (map fst (fill_slotMap ss)))"
    by (auto simp: dynamicTimeSlots_unfold)
  then have "slot_from sl \<in> from' ` set (filter usable ss)"
    using key_set_fill_slotMap [of ss] by (simp add: set_array_sort)
  then show ?thesis by (auto simp: usable_def)
qed

lemma visibleDates_nonempty:
  assumes "d \<in> set (visibleDates env today st)" and "today \<noteq> []" and "list_all dated (sessions st)"
  shows "d \<noteq> []"
proof -
  from assms(1) have "d = today \<or> d \<in> date ` set (sessions st)"
    by (auto simp: visibleDates_def Let_def split: if_splits)
  with assms(2,3) show ?thesis
    by (auto simp: list_all_iff dated_def)
qed

lemma dated_updatedSession:
  assumes "d \<noteq> []" and "slot_from sl \<noteq> []"
  shows "dated (updatedSession env st s d sl)"
  using assms by (simp add: dated_def updatedSession_def)

lemma reachable_dated:
  assumes "reachable env st"
  shows "list_all dated (sessions st)"
  using assms
proof (induction rule: reachable.induct)
  case start
  show ?case by (simp add: initial_state_def)
next
  case (upload st workbook)
  show ?case
  proof (cases "parseExcelFile env workbook")
    case (Inl e)
    with upload.IH show ?thesis by (simp add: handleFileUpload_def)
  next
    case (Inr data)
    from parseExcelFile_dated [OF this] upload.IH Inr show ?thesis
      by (simp add: handleFileUpload_def)
  qed
next
  case (navigate st q)
  then show ?case by simp
next
  case (place_staged st s today targetDate targetSlot)
  have "targetDate \<noteq> []"
    using place_staged.hyps(4) place_staged.hyps(3) place_staged.IH by (rule visibleDates_nonempty)
  moreover have "slot_from targetSlot \<noteq> []"
    using place_staged.hyps(5) by (rule dynamicTimeSlots_from_nonempty)
  ultimately have "dated (updatedSession env st s targetDate targetSlot)"
    by (rule dated_updatedSession)
  with place_staged.IH show ?case
    by (simp add: onDropToTimetable_def)
next
  case (place_placed st s today targetDate targetSlot)
  have "targetDate \<noteq> []"
    using place_placed.hyps(4) place_placed.hyps(3) place_placed.IH by (rule visibleDates_nonempty)
  moreover have "slot_from targetSlot \<noteq> []"
    using place_placed.hyps(5) by (rule dynamicTimeSlots_from_nonempty)
  ultimately have "dated (updatedSession env st s targetDate targetSlot)"
    by (rule dated_updatedSession)
  with place_placed.IH show ?case
    by (auto simp: onDropToTimetable_def list_all_iff)
next
  case (stage st s)
  then show ?case by (simp add: onDropToParking_def list_all_iff)
next
  case (remove st s)
  then show ?case by (simp add: discard_def)
qed

lemma example_import:
  "parseExcelFile plain_env example_workbook = Inr [intro_session, advanced_session]"
  by code_simp

lemma example_state_eq:
  "example_state = \<lparr>sessions = [intro_session, advanced_session], parkingLot = [], selectedSquad = SquadStr ''4''\<rparr>"
  by (simp add: example_state_def handleFileUpload_def example_import initial_state_def intro_session_def)

lemma example_state_reachable: "reachable plain_env example_state"
  unfolding example_state_def by (rule reachable.upload [OF reachable.start])

text \<open>
  Claim C6. No session with an empty \<open>from\<close> or an empty \<open>date\<close> enters the collection: the
  import builds a session only for a row whose resolved start time and date are both
  non-empty, and in every state the interface can reach (by uploads, drops on grid cells,
  staging and discarding) each placed session has both.
\<close>

theorem sessions_never_undated:
  "(parseExcelFile env workbook = Inr data \<longrightarrow> (\<forall>s\<in>set data. from' s \<noteq> [] \<and> date s \<noteq> [])) \<and>
   (reachable env st \<longrightarrow> (\<forall>s\<in>set (sessions st). from' s \<noteq> [] \<and> date s \<noteq> []))"
  using parseExcelFile_dated [of env workbook data] reachable_dated [of env st]
  by (simp add: list_all_iff dated_def)

theorem sessions_never_undated_witness:
  "parseExcelFile plain_env example_workbook = Inr [intro_session, advanced_session] \<and>
   reachable plain_env example_state \<and>
   list_all (\<lambda>s. from' s \<noteq> [] \<and> date s \<noteq> []) [intro_session, advanced_session] \<and>
   list_all (\<lambda>s. from' s \<noteq> [] \<and> date s \<noteq> []) (sessions example_state)"
  using sessions_never_undated [of plain_env example_workbook "[intro_session, advanced_session]" example_state]
    example_import example_state_reachable
  by (simp add: list_all_iff)

lemma reachable_disjoint:
  assumes "reachable env st"
  shows "placed_ids st \<inter> staged_ids st = {}"
  using assms
proof (induction rule: reachable.induct)
  case start
  show ?case by (simp add: initial_state_def placed_ids_def staged_ids_def)
next
  case (upload st workbook)
  then show ?case
    by (auto simp: handleFileUpload_def placed_ids_def staged_ids_def split: sum.splits)
next
  case (navigate st q)
  then show ?case by (simp add: placed_ids_def staged_ids_def)
next
  case (place_staged st s today targetDate targetSlot)
  then show ?case
    by (auto simp: onDropToTimetable_def placed_ids_def staged_ids_def updatedSession_def)
next
  case (place_placed st s today targetDate targetSlot)
  then show ?case
    by (auto simp: onDropToTimetable_def placed_ids_def staged_ids_def updatedSession_def)
next
  case (stage st s)
  then show ?case
    by (auto simp: onDropToParking_def placed_ids_def staged_ids_def)
next
  case (remove st s)
  then show ?case
    by (auto simp: discard_def placed_ids_def staged_ids_def)
qed

lemma id_updatedSession [simp]: "id' (updatedSession env st s d sl) = id' s"
  by (simp add: updatedSession_def)

lemma place_staged_ids:
  "placed_ids (onDropToTimetable env st s Parking d sl) = insert (id' s) (placed_ids st) \<and>
   staged_ids (onDropToTimetable env st s Parking d sl) = staged_ids st - {id' s}"
  by (auto simp: onDropToTimetable_def placed_ids_def staged_ids_def)

lemma place_placed_ids:
  assumes "s \<in> set (sessions st)"
  shows "placed_ids (onDropToTimetable env st s Timetable d sl) = placed_ids st \<and>
   staged_ids (onDropToTimetable env st s Timetable d sl) = staged_ids st \<and>
   sessions (onDropToTimetable env st s Timetable d sl) =
     map (\<lambda>x. if id' x = id' s then updatedSession env st s d sl else x) (sessions st)"
proof -
  have "map id' (map (\<lambda>x. if id' x = id' s then updatedSession env st s d sl else x) (sessions st))
          = map id' (sessions st)"
    by (induction "sessions st") (auto simp: updatedSession_def)
  then have "id' ` set (map (\<lambda>x. if id' x = id' s then updatedSession env st s d sl else x) (sessions st))
          = id' ` set (sessions st)"
    by (metis set_map)
  then show ?thesis
    by (simp add: onDropToTimetable_def placed_ids_def staged_ids_def)
qed

lemma stage_ids:
  "placed_ids (onDropToParking st s Timetable) = placed_ids st - {id' s} \<and>
   staged_ids (onDropToParking st s Timetable) = insert (id' s) (staged_ids st)"
  by (auto simp: onDropToParking_def placed_ids_def staged_ids_def)

lemma discard_ids:
  "staged_ids (discard st s) = staged_ids st - {id' s} \<and> placed_ids (discard st s) = placed_ids st"
  by (auto simp: discard_def placed_ids_def staged_ids_def)

text \<open>
  Claim C7. In every reachable state no identifier is both placed and staged. Placing a
  staged session moves its identifier from the staged set to the placed set; placing a
  placed session keeps both sets and replaces the record under that identifier; staging
  moves the identifier from the placed set to the staged set; discarding removes it from
  the staged set and leaves the placed set alone.
\<close>

theorem placement_keeps_sets_apart:
  assumes "reachable env st"
  shows "placed_ids st \<inter> staged_ids st = {} \<and>
    (\<forall>s d sl. s \<in> set (parkingLot st) \<longrightarrow>
       placed_ids (onDropToTimetable env st s Parking d sl) = insert (id' s) (placed_ids st) \<and>
       staged_ids (onDropToTimetable env st s Parking d sl) = staged_ids st - {id' s}) \<and>
    (\<forall>s d sl. s \<in> set (sessions st) \<longrightarrow>
       placed_ids (onDropToTimetable env st s Timetable d sl) = placed_ids st \<and>
       staged_ids (onDropToTimetable env st s Timetable d sl) = staged_ids st \<and>
       sessions (onDropToTimetable env st s Timetable d sl) =
         map (\<lambda>x. if id' x = id' s then updatedSession env st s d sl else x) (sessions st)) \<and>
    (\<forall>s. s \<in> set (sessions st) \<longrightarrow>
       placed_ids (onDropToParking st s Timetable) = placed_ids st - {id' s} \<and>
       staged_ids (onDropToParking st s Timetable) = insert (id' s) (staged_ids st)) \<and>
    (\<forall>s. s \<in> set (parkingLot st) \<longrightarrow>
       staged_ids (discard st s) = staged_ids st - {id' s} \<and>
       placed_ids (discard st s) = placed_ids st)"
proof (intro conjI allI impI)
  show "placed_ids st \<inter> staged_ids st = {}"
    by (rule reachable_disjoint [OF assms])
qed (simp_all add: place_staged_ids place_placed_ids stage_ids discard_ids)

theorem placement_keeps_sets_apart_witness:
  "placed_ids example_state \<inter> staged_ids example_state = {} \<and>
   placed_ids (onDropToParking example_state intro_session Timetable)
     = placed_ids example_state - {id' intro_session} \<and>
   staged_ids (onDropToParking example_state intro_session Timetable)
     = insert (id' intro_session) (staged_ids example_state) \<and>
   placed_ids (onDropToTimetable plain_env example_state intro_session Timetable ''2024-01-01''
                 \<lparr>slot_from = ''1330'', slot_to = ''1530''\<rparr>) = placed_ids example_state"
proof -
  have placed: "intro_session \<in> set (sessions example_state)"
    by (simp add: example_state_eq)
  note parts = placement_keeps_sets_apart [OF example_state_reachable]
  note apart = parts [THEN conjunct1]
  note replaced = parts [THEN conjunct2, THEN conjunct2, THEN conjunct1, rule_format, OF placed]
  note staged = parts [THEN conjunct2, THEN conjunct2, THEN conjunct2, THEN conjunct1, rule_format, OF placed]
  from apart replaced [of "''2024-01-01''" "\<lparr>slot_from = ''1330'', slot_to = ''1530''\<rparr>"] staged
  show ?thesis by simp
qed

lemma placed_record:
  assumes reach: "reachable env st"
    and src: "(source = Parking \<and> s \<in> set (parkingLot st)) \<or> (source = Timetable \<and> s \<in> set (sessions st))"
    and x: "x \<in> set (sessions (onDropToTimetable env st s source targetDate targetSlot))" "id' x = id' s"
  shows "x = updatedSession env st s targetDate targetSlot"
proof (cases source)
  case Timetable
  with x show ?thesis
    by (auto simp: onDropToTimetable_def split: if_splits)
next
  case Parking
  with src have "id' s \<in> staged_ids st" by (auto simp: staged_ids_def)
  with reachable_disjoint [OF reach] have "id' s \<notin> placed_ids st" by blast
  then have "\<forall>y\<in>set (sessions st). id' y \<noteq> id' s"
    unfolding placed_ids_def by (metis image_eqI)
  with Parking x show ?thesis
    by (auto simp: onDropToTimetable_def)
qed

lemma placed_record_exists:
  assumes "(source = Parking \<and> s \<in> set (parkingLot st)) \<or> (source = Timetable \<and> s \<in> set (sessions st))"
  shows "updatedSession env st s targetDate targetSlot
           \<in> set (sessions (onDropToTimetable env st s source targetDate targetSlot))"
  using assms by (cases source) (auto simp: onDropToTimetable_def)

lemma not_staged_after_place:
  assumes reach: "reachable env st"
    and src: "(source = Parking \<and> s \<in> set (parkingLot st)) \<or> (source = Timetable \<and> s \<in> set (sessions st))"
  shows "filter (\<lambda>y. id' y = id' s) (parkingLot (onDropToTimetable env st s source targetDate targetSlot)) = []"
proof (cases source)
  case Parking
  then show ?thesis by (auto simp: onDropToTimetable_def filter_empty_conv)
next
  case Timetable
  with src have "id' s \<in> placed_ids st" by (auto simp: placed_ids_def)
  with reachable_disjoint [OF reach] have "id' s \<notin> staged_ids st" by blast
  then have "\<forall>y\<in>set (parkingLot st). id' y \<noteq> id' s"
    unfolding staged_ids_def by (metis image_eqI)
  with Timetable show ?thesis
    by (simp add: onDropToTimetable_def filter_empty_conv)
qed

text \<open>
  Claim C8. Let a session \<open>s\<close> be dragged from the collection that shows it, in a reachable
  state, and placed on a target date and slot. The placed set then holds a record with the
  identifier of \<open>s\<close>, and for every such record \<open>x\<close>: it has the date, \<open>from\<close> and \<open>to\<close> of
  the target (not the values \<open>s\<close> had before) and the course, unit and mentor of \<open>s\<close>; and
  after staging \<open>x\<close> it is the one staged record with that identifier, and the identifier
  is no longer placed.
\<close>

theorem place_then_stage:
  assumes reach: "reachable env st"
    and src: "(source = Parking \<and> s \<in> set (parkingLot st)) \<or> (source = Timetable \<and> s \<in> set (sessions st))"
    and placed: "placed = onDropToTimetable env st s source targetDate targetSlot"
  shows "(\<exists>x\<in>set (sessions placed). id' x = id' s) \<and>
    (\<forall>x\<in>set (sessions placed). id' x = id' s \<longrightarrow>
       filter (\<lambda>y. id' y = id' s) (parkingLot (onDropToParking placed x Timetable)) = [x] \<and>
       id' s \<notin> placed_ids (onDropToParking placed x Timetable) \<and>
       date x = targetDate \<and> from' x = slot_from targetSlot \<and> to' x = slot_to targetSlot \<and>
       course_id x = course_id s \<and> lu_id x = lu_id s \<and> mentor_id x = mentor_id s)"
proof (intro conjI ballI impI)
  show "\<exists>x\<in>set (sessions placed). id' x = id' s"
    unfolding placed
    by (rule bexI [OF _ placed_record_exists [OF src]]) simp
next
  fix x assume x: "x \<in> set (sessions placed)" "id' x = id' s"
  have u: "x = updatedSession env st s targetDate targetSlot"
    using placed_record [OF reach src] x placed by simp
  have none: "filter (\<lambda>y. id' y = id' s) (parkingLot placed) = []"
    unfolding placed by (rule not_staged_after_place [OF reach src])
  show "filter (\<lambda>y. id' y = id' s) (parkingLot (onDropToParking placed x Timetable)) = [x]"
    using none x(2) by (simp add: onDropToParking_def)
  show "id' s \<notin> placed_ids (onDropToParking placed x Timetable)"
    using x(2) by (auto simp: onDropToParking_def placed_ids_def)
  show "date x = targetDate" "from' x = slot_from targetSlot" "to' x = slot_to targetSlot"
    "course_id x = course_id s" "lu_id x = lu_id s" "mentor_id x = mentor_id s"
    unfolding u by (simp_all add: updatedSession_def)
qed

theorem place_then_stage_witness:
  "filter (\<lambda>y. id' y = id' intro_session)
     (parkingLot (onDropToParking
        (onDropToTimetable plain_env example_state intro_session Timetable ''2024-01-02''
           \<lparr>slot_from = ''1330'', slot_to = ''1530''\<rparr>) moved_session Timetable)) = [moved_session] \<and>
   date moved_session = ''2024-01-02'' \<and> from' moved_session = ''1330'' \<and> to' moved_session = ''1530''"
proof -
  have src: "(Timetable = Parking \<and> intro_session \<in> set (parkingLot example_state)) \<or>
             (Timetable = Timetable \<and> intro_session \<in> set (sessions example_state))"
    by (simp add: example_state_eq)
  have there: "moved_session \<in> set (sessions (onDropToTimetable plain_env example_state intro_session Timetable
                 ''2024-01-02'' \<lparr>slot_from = ''1330'', slot_to = ''1530''\<rparr>))"
    by (simp add: example_state_eq onDropToTimetable_def updatedSession_def moved_session_def
        intro_session_def advanced_session_def)
  have same: "id' moved_session = id' intro_session"
    by (simp add: moved_session_def)
  note parts = place_then_stage [OF example_state_reachable src refl,
      of "''2024-01-02''" "\<lparr>slot_from = ''1330'', slot_to = ''1530''\<rparr>"]
  note staged = parts [THEN conjunct2, rule_format, OF there same]
  from staged show ?thesis by simp
qed

subsection \<open>exportToExcel\<close>

lemma number_rows_Cons:
  "number_rows cd c (s # ss) =
     make_row (if date s \<noteq> cd then 1 else c + 1) s
       # number_rows (date s) (if date s \<noteq> cd then 1 else c + 1) ss"
  by simp

lemma length_number_rows: "length (number_rows cd c ss) = length ss"
  by (induction ss arbitrary: cd c) auto

lemma payload_number_rows: "map row_payload (number_rows cd c ss) = map session_payload ss"
  by (induction ss arbitrary: cd c) (auto simp: row_payload_def session_payload_def make_row_def)

lemma row_date_number_rows: "map row_date (number_rows cd c ss) = map date ss"
  by (induction ss arbitrary: cd c) (auto simp: make_row_def)

lemma row_from_number_rows: "map row_from (number_rows cd c ss) = map from' ss"
  by (induction ss arbitrary: cd c) (auto simp: make_row_def)

lemma first_slot_number:
  "ss \<noteq> [] \<Longrightarrow> slot_number (number_rows cd c ss ! 0) = (if date (hd ss) \<noteq> cd then 1 else c + 1)"
  by (cases ss) (auto simp: make_row_def)

lemma later_slot_numbers:
  assumes "0 < i" and "i < length ss"
  shows "slot_number (number_rows cd c ss ! i) =
           (if row_date (number_rows cd c ss ! i) \<noteq> row_date (number_rows cd c ss ! (i - 1)) then 1
            else slot_number (number_rows cd c ss ! (i - 1)) + 1)"
  using assms
proof (induction ss arbitrary: cd c i)
  case Nil
  then show ?case by simp
next
  case (Cons s ss)
  let ?k = "if date s \<noteq> cd then 1 else c + 1"
  let ?rest = "number_rows (date s) ?k ss"
  have rows: "number_rows cd c (s # ss) = make_row ?k s # ?rest"
    by (rule number_rows_Cons)
  show ?case
  proof (cases "i = 1")
    case True
    with Cons.prems have ne: "ss \<noteq> []" by auto
    have "row_date (?rest ! 0) = date (hd ss)"
      using ne row_date_number_rows [of "date s" ?k ss] by (cases ss) (auto simp: make_row_def)
    with first_slot_number [OF ne, of "date s" ?k] True show ?thesis
      unfolding rows by (simp add: make_row_def)
  next
    case False
    with Cons.prems have i: "0 < i - 1" "i - 1 < length ss" by auto
    from Cons.IH [OF i, of "date s" ?k] i show ?thesis
      unfolding rows by (simp add: nth_Cons')
  qed
qed

lemma slot_numbers:
  assumes "i < length ss"
  shows "slot_number (number_rows [] 0 ss ! i) =
           (if i = 0 \<or> row_date (number_rows [] 0 ss ! i) \<noteq> row_date (number_rows [] 0 ss ! (i - 1)) then 1
            else slot_number (number_rows [] 0 ss ! (i - 1)) + 1)"
proof (cases "i = 0")
  case True
  with assms have "ss \<noteq> []" by auto
  from first_slot_number [OF this, of "[]" 0] True show ?thesis by simp
next
  case False
  with later_slot_numbers [of i ss "[]" 0] assms show ?thesis by simp
qed

lemma sorted_number_rows:
  "sorted_wrt row_before (number_rows cd c ss) = sorted_wrt session_before ss"
proof -
  let ?before = "\<lambda>p q. fst p < fst q \<or>
      (fst p = fst q \<and> the (parseInt (fst (snd p))) \<le> the (parseInt (fst (snd q))))"
  have r: "row_before = (\<lambda>a b. ?before (row_payload a) (row_payload b))"
    by (simp add: fun_eq_iff row_before_def row_payload_def)
  have s: "session_before = (\<lambda>a b. ?before (session_payload a) (session_payload b))"
    by (simp add: fun_eq_iff session_before_def session_payload_def)
  have "sorted_wrt row_before (number_rows cd c ss)
          = sorted_wrt ?before (map row_payload (number_rows cd c ss))"
    unfolding r by (simp only: sorted_wrt_map)
  also have "\<dots> = sorted_wrt ?before (map session_payload ss)"
    by (simp only: payload_number_rows)
  also have "\<dots> = sorted_wrt session_before ss"
    unfolding s by (simp only: sorted_wrt_map)
  finally show ?thesis .
qed

lemma cmp_le_compare_sessions:
  assumes "dates_collate env ss" and "a \<in> set ss" and "b \<in> set ss"
    and "parseInt (from' a) \<noteq> None" and "parseInt (from' b) \<noteq> None"
  shows "cmp_le (compare_sessions env) a b = session_before a b"
proof (cases "date a = date b")
  case True
  with assms(4,5) show ?thesis
    by (auto simp: cmp_le_def compare_sessions_def compare_from_def cmp_value_def session_before_def)
next
  case False
  with assms(1-3) have "(localeCompare env (date a) (date b) \<le> 0) = (date a < date b)"
    by (simp add: dates_collate_def)
  with False show ?thesis
    by (simp add: cmp_le_def compare_sessions_def cmp_value_def session_before_def)
qed

lemma session_before_total: "session_before a b \<or> session_before b a"
  by (auto simp: session_before_def)

lemma session_before_trans: "session_before a b \<Longrightarrow> session_before b c \<Longrightarrow> session_before a c"
  by (auto simp: session_before_def)

lemma sorted_sessions:
  assumes coll: "dates_collate env ss" and nums: "\<forall>s\<in>set ss. parseInt (from' s) \<noteq> None"
  shows "sorted_wrt session_before (array_sort (compare_sessions env) ss)"
proof -
  have eq: "cmp_le (compare_sessions env) a b = session_before a b" if "a \<in> set ss" "b \<in> set ss" for a b
    using cmp_le_compare_sessions [OF coll that] nums that by simp
  have "sorted_wrt (cmp_le (compare_sessions env)) (array_sort (compare_sessions env) ss)"
  proof (rule sorted_array_sort)
    fix x y assume "x \<in> set ss" "y \<in> set ss"
    then show "cmp_le (compare_sessions env) x y \<or> cmp_le (compare_sessions env) y x"
      using session_before_total [of x y] by (simp add: eq)
  next
    fix x y z assume "x \<in> set ss" "y \<in> set ss" "z \<in> set ss"
      "cmp_le (compare_sessions env) x y" "cmp_le (compare_sessions env) y z"
    then show "cmp_le (compare_sessions env) x z"
      using session_before_trans [of x y z] by (simp add: eq)
  qed
  then show ?thesis
  proof (rule sorted_wrt_mono_rel [rotated])
    fix a b assume "a \<in> set (array_sort (compare_sessions env) ss)"
      "b \<in> set (array_sort (compare_sessions env) ss)" "cmp_le (compare_sessions env) a b"
    then show "session_before a b"
      by (simp add: set_array_sort eq)
  qed
qed

lemma of_char_lower_char:
  "(of_char (lower_char c) :: nat) = (if is_capital c then of_char c + 32 else of_char c)"
proof -
  have "(of_char c :: nat) < 256" by simp
  then show ?thesis
    by (auto simp: lower_char_def is_capital_def Let_def)
qed

lemma lower_char_eq_iff: "(lower_char c = lower_char d) = same_letter c d"
proof -
  have c: "(of_char c :: nat) < 256" and d: "(of_char d :: nat) < 256" by simp_all
  have "(lower_char c = lower_char d) = ((of_char (lower_char c) :: nat) = of_char (lower_char d))"
    by simp
  also have "\<dots> = same_letter c d"
    unfolding of_char_lower_char same_letter_def
    using c d by (auto simp: is_capital_def)
  finally show ?thesis .
qed

lemma toLowerCase_eq_iff: "(toLowerCase a = toLowerCase b) = equal_ignoring_case a b"
  unfolding toLowerCase_def equal_ignoring_case_def
proof (induction a arbitrary: b)
  case Nil
  then show ?case by auto
next
  case (Cons x a)
  then show ?case by (cases b) (auto simp: lower_char_eq_iff)
qed

lemma squad_matches_iff:
  "squad_matches env squadId s =
     equal_ignoring_case (squad_text env (squad_number s)) (squad_text env squadId)"
  by (simp add: squad_matches_def toLowerCase_eq_iff)

lemma equal_ignoring_case_refl: "equal_ignoring_case a a"
  by (simp add: equal_ignoring_case_def same_letter_def list_all2_same)

lemma squad_text_4: "squad_text env (SquadNum 4) = ''4''"
  by code_simp

lemma plain_env_collates: "dates_collate plain_env ss"
  by (simp add: dates_collate_def plain_env_def)

text \<open>
  Claim C3 says that for every session list the rows of the export are ordered by date in
  the order of code units and then by \<open>from\<close> as an integer. The sort compares dates with
  \<open>localeCompare\<close> and start times by \<open>parseInt(a.from) - parseInt(b.from)\<close>, and the import
  keeps a date cell that is no date as its text and can produce a \<open>from\<close> that is no
  numeral. With the collation of the engines the date \<open>tbd\<close> is exported before \<open>TBD\<close>,
  against the code units; and the sheet of one day with the start times \<open>1030\<close>, \<open>-:30\<close>,
  \<open>0830\<close> is exported in that order, since a difference with \<open>NaN\<close> counts as equal.
\<close>

theorem export_order_needs_canonical_fields:
  "map row_date (snd (snd (exportToExcel collating_env tbd_sessions (SquadNum 4)))) = [''tbd'', ''TBD''] \<and>
   \<not> sorted_wrt row_before (snd (snd (exportToExcel collating_env tbd_sessions (SquadNum 4)))) \<and>
   map row_date odd_time_rows = [''2024-01-01'', ''2024-01-01'', ''2024-01-01''] \<and>
   map row_from odd_time_rows = [''1030'', ''NaN30'', ''0830''] \<and>
   \<not> sorted_wrt row_before odd_time_rows"
proof -
  have dates: "map row_date (snd (snd (exportToExcel collating_env tbd_sessions (SquadNum 4)))) = [''tbd'', ''TBD'']"
    by code_simp
  have unordered: "\<not> sorted_wrt row_before (snd (snd (exportToExcel collating_env tbd_sessions (SquadNum 4))))"
    by code_simp
  have one_day: "map row_date odd_time_rows = [''2024-01-01'', ''2024-01-01'', ''2024-01-01'']"
    by code_simp
  have times: "map row_from odd_time_rows = [''1030'', ''NaN30'', ''0830'']"
    by code_simp
  have late_first: "\<not> row_before (odd_time_rows ! 0) (odd_time_rows ! 2)"
    by code_simp
  have "length odd_time_rows = 3"
    using times by (metis length_map length_Cons list.size(3) numeral_3_eq_3)
  then have "sorted_wrt row_before odd_time_rows \<Longrightarrow> row_before (odd_time_rows ! 0) (odd_time_rows ! 2)"
    by (simp add: sorted_wrt_iff_nth_less)
  with late_first have unordered_times: "\<not> sorted_wrt row_before odd_time_rows" by blast
  from dates unordered one_day times unordered_times show ?thesis by simp
qed

text \<open>
  Claim C3, amended. For every session list and squad, the export has exactly one data
  row for each session whose squad number, as a string, equals the string of the squad
  asked for when case is ignored; a session of squad \<open>4\<close> is included for the number 4 and
  for the string \<open>4\<close>. The slot number of a row is 1 when the row is the first one or its
  date differs from the date of the row before, and one more than the slot number of the
  row before otherwise. When \<open>localeCompare\<close> orders the dates of those sessions as their
  code units do (as it does on dates of the form \<open>YYYY-MM-DD\<close>) and \<open>parseInt\<close> reads
  every \<open>from\<close> of them, the rows ascend by date in the order of code units and, within a
  date, by \<open>from\<close> as an integer.
\<close>

theorem exportToExcel_rows:
  assumes run: "exportToExcel env ss squadId = (header, columns, rows)"
    and matching: "matching = filter (\<lambda>s. equal_ignoring_case (squad_text env (squad_number s))
                                             (squad_text env squadId)) ss"
  shows "mset (map row_payload rows) = mset (map session_payload matching) \<and>
    (\<forall>s\<in>set ss. squad_number s = SquadStr ''4'' \<and> (squadId = SquadNum 4 \<or> squadId = SquadStr ''4'')
        \<longrightarrow> session_payload s \<in> set (map row_payload rows)) \<and>
    (\<forall>i<length rows.
       slot_number (rows ! i) =
         (if i = 0 \<or> row_date (rows ! i) \<noteq> row_date (rows ! (i - 1)) then 1
          else slot_number (rows ! (i - 1)) + 1)) \<and>
    (dates_collate env matching \<and> (\<forall>s\<in>set matching. parseInt (from' s) \<noteq> None)
       \<longrightarrow> sorted_wrt row_before rows)"
proof -
  have F: "matching = filter (squad_matches env squadId) ss"
    unfolding matching by (rule filter_cong [OF refl]) (simp add: squad_matches_iff)
  let ?S = "array_sort (compare_sessions env) matching"
  from run have rows: "rows = number_rows [] 0 ?S"
    by (auto simp: exportToExcel_def dataRows_def sortedSessions_def F)
  have "mset (map row_payload rows) = mset (map session_payload ?S)"
    unfolding rows by (simp add: payload_number_rows)
  also have "\<dots> = mset (map session_payload matching)"
    using mset_array_sort [of "compare_sessions env" matching]
    by (metis mset_map)
  finally have one_each: "mset (map row_payload rows) = mset (map session_payload matching)" .
  have four: "session_payload s \<in> set (map row_payload rows)"
    if "s \<in> set ss" "squad_number s = SquadStr ''4''" "squadId = SquadNum 4 \<or> squadId = SquadStr ''4''" for s
  proof -
    have "squad_text env (SquadStr ''4'') = ''4''" by simp
    with that(2,3) squad_text_4 [of env]
    have "squad_text env (squad_number s) = squad_text env squadId"
      by (elim disjE) (simp_all del: squad_text.simps)
    with that(1) have "s \<in> set matching"
      unfolding matching by (simp add: equal_ignoring_case_refl)
    then have "session_payload s \<in> set (map session_payload matching)" by simp
    with one_each show ?thesis by (metis set_mset_mset)
  qed
  have numbered: "\<forall>i<length rows.
       slot_number (rows ! i) =
         (if i = 0 \<or> row_date (rows ! i) \<noteq> row_date (rows ! (i - 1)) then 1
          else slot_number (rows ! (i - 1)) + 1)"
    unfolding rows using slot_numbers [of _ ?S] by (simp add: length_number_rows)
  have ordered: "sorted_wrt row_before rows"
    if "dates_collate env matching" "\<forall>s\<in>set matching. parseInt (from' s) \<noteq> None"
    unfolding rows sorted_number_rows by (rule sorted_sessions [OF that])
  from one_each four numbered ordered show ?thesis by blast
qed

theorem exportToExcel_rows_witness:
  "mset (map row_payload (dataRows plain_env export_example (SquadNum 4)))
     = mset (map session_payload
               (filter (\<lambda>s. equal_ignoring_case (squad_text plain_env (squad_number s))
                                                  (squad_text plain_env (SquadNum 4))) export_example)) \<and>
   session_payload advanced_session \<in> set (map row_payload (dataRows plain_env export_example (SquadNum 4))) \<and>
   slot_number (dataRows plain_env export_example (SquadNum 4) ! 0) = 1 \<and>
   sorted_wrt row_before (dataRows plain_env export_example (SquadNum 4))"
proof -
  have run: "exportToExcel plain_env export_example (SquadNum 4)
               = (SquadNum 4, columnHeaders, dataRows plain_env export_example (SquadNum 4))"
    by (simp add: exportToExcel_def)
  have numerals: "\<forall>s\<in>set (filter (\<lambda>s. equal_ignoring_case (squad_text plain_env (squad_number s))
                                                  (squad_text plain_env (SquadNum 4))) export_example).
                     parseInt (from' s) \<noteq> None"
    by code_simp
  have some: "0 < length (dataRows plain_env export_example (SquadNum 4))"
    by code_simp
  have member: "advanced_session \<in> set export_example"
    by (simp add: export_example_def)
  have four: "squad_number advanced_session = SquadStr ''4'' \<and>
              (SquadNum 4 = SquadNum 4 \<or> SquadNum 4 = SquadStr ''4'')"
    by (simp add: advanced_session_def)
  note parts = exportToExcel_rows [OF run refl]
  note one_each = parts [THEN conjunct1]
  note included = parts [THEN conjunct2, THEN conjunct1, rule_format, OF member four]
  note numbered = parts [THEN conjunct2, THEN conjunct2, THEN conjunct1, rule_format, OF some]
  note ordered = parts [THEN conjunct2, THEN conjunct2, THEN conjunct2, rule_format, OF conjI,
      OF plain_env_collates numerals]
  from one_each included numbered ordered show ?thesis by simp
qed

subsection \<open>exportToExcel and its input\<close>

lemma those_map_Some:
  assumes "those (map f xs) = Some ys"
  shows "ys = map (\<lambda>x. the (f x)) xs \<and> (\<forall>x\<in>set xs. f x \<noteq> None)"
  using assms
proof (induction xs arbitrary: ys)
  case Nil
  then show ?case by simp
next
  case (Cons x xs)
  then show ?case
    by (auto split: option.splits)
qed

lemma those_map_the:
  assumes "\<forall>x\<in>set xs. f x = Some (g x)"
  shows "those (map f xs) = Some (map g xs)"
  using assms by (induction xs) auto

lemma insert_sorted_map:
  assumes "\<forall>y\<in>set ys. cmp' x y = cmp (d x) (d y)"
  shows "map d (insert_sorted cmp' x ys) = insert_sorted cmp (d x) (map d ys)"
  using assms by (induction ys) auto

lemma array_sort_map:
  assumes "\<forall>x\<in>set xs. \<forall>y\<in>set xs. cmp' x y = cmp (d x) (d y)"
  shows "map d (array_sort cmp' xs) = array_sort cmp (map d xs)"
  using assms
proof (induction xs)
  case Nil
  then show ?case by (simp add: array_sort_def)
next
  case (Cons x xs)
  have IH: "map d (array_sort cmp' xs) = array_sort cmp (map d xs)"
    using Cons by simp
  have "map d (insert_sorted cmp' x (array_sort cmp' xs)) = insert_sorted cmp (d x) (map d (array_sort cmp' xs))"
    by (rule insert_sorted_map) (use Cons.prems in \<open>simp add: set_array_sort\<close>)
  with IH show ?case by (simp add: array_sort_def)
qed

text \<open>
  Claim C10. The export does not change its input. Run on a well-formed store in which
  \<open>a\<close> is the array of the sessions \<open>ss\<close>, it returns the data rows of \<open>ss\<close> and a store
  that agrees with the old one at every address in use before: the array at \<open>a\<close> and every
  session object are as they were, and \<open>a\<close> still denotes \<open>ss\<close>. The filter and the spread
  each allocate a new array, and the sort writes into the second of them.
\<close>

theorem exportToExcel_heap_frame:
  assumes ok: "heap_ok h" and input: "sessions_at h a = Some ss"
  shows "\<exists>h' rows. exportToExcel_heap env h a squadId = Some (h', rows) \<and>
           rows = dataRows env ss squadId \<and>
           (\<forall>b<next_addr h. store h' b = store h b) \<and>
           sessions_at h' a = Some ss"
proof -
  define n where "n = next_addr h"
  define d where "d = (\<lambda>r. the (read_session h r))"
  from input obtain rs where rs: "read_array h a = Some rs"
    and ss_rs: "those (map (read_session h) rs) = Some ss"
    by (auto simp: sessions_at_def split: option.splits)
  from those_map_Some [OF ss_rs] have ss: "ss = map d rs"
    and present: "\<forall>r\<in>set rs. read_session h r \<noteq> None" by (simp_all add: d_def)
  have known: "read_session h r = Some (d r)" if "r \<in> set rs" for r
    using present that by (auto simp: d_def)
  have below: "b < n" if "store h b \<noteq> None" for b
    using ok that by (simp add: heap_ok_def n_def)
  have a_below: "a < n"
    using rs by (intro below) (auto simp: read_array_def split: option.splits)
  have refs_below: "r < n" if "r \<in> set rs" for r
    using present that by (intro below) (auto simp: read_session_def split: option.splits)
  define F where "F = filter (\<lambda>r. squad_matches env squadId (d r)) rs"
  have F: "filter (\<lambda>r. case read_session h r of Some s \<Rightarrow> squad_matches env squadId s | None \<Rightarrow> False) rs = F"
    unfolding F_def by (rule filter_cong) (simp_all add: known)
  have F_sub: "set F \<subseteq> set rs" by (auto simp: F_def)
  define h1 where "h1 = h\<lparr> store := (store h)(n \<mapsto> ArrayObj F), next_addr := Suc n \<rparr>"
  have alloc1: "alloc h (ArrayObj F) = (h1, n)"
    by (simp add: alloc_def h1_def n_def)
  have array1: "read_array h1 n = Some F"
    by (simp add: read_array_def h1_def)
  define h2 where "h2 = h1\<lparr> store := (store h1)(Suc n \<mapsto> ArrayObj F), next_addr := Suc (Suc n) \<rparr>"
  have alloc2: "alloc h1 (ArrayObj F) = (h2, Suc n)"
    by (simp add: alloc_def h2_def h1_def)
  have array2: "read_array h2 (Suc n) = Some F"
    by (simp add: read_array_def h2_def)
  have store2: "store h2 b = store h b" if "b < n" for b
    using that by (simp add: h2_def h1_def)
  have read2: "read_session h2 r = Some (d r)" if "r \<in> set rs" for r
    using known [OF that] store2 [OF refs_below [OF that]] by (simp add: read_session_def)
  define cmp' where "cmp' = (\<lambda>x y. case (read_session h2 x, read_session h2 y) of
                        (Some sx, Some sy) \<Rightarrow> compare_sessions env sx sy | _ \<Rightarrow> None)"
  define S where "S = array_sort cmp' F"
  define h3 where "h3 = h2\<lparr> store := (store h2)(Suc n \<mapsto> ArrayObj S) \<rparr>"
  have sort3: "sort_in_place (compare_sessions env) h2 (Suc n) = h3"
    by (simp add: sort_in_place_def array2 h3_def S_def cmp'_def)
  have store3: "store h3 b = store h b" if "b < n" for b
    using that store2 [OF that] by (simp add: h3_def)
  have read3: "read_session h3 r = Some (d r)" if "r \<in> set rs" for r
    using known [OF that] store3 [OF refs_below [OF that]] by (simp add: read_session_def)
  have sorted_eq: "map d S = array_sort (compare_sessions env) (map d F)"
    unfolding S_def
  proof (rule array_sort_map, intro ballI)
    fix x y assume "x \<in> set F" "y \<in> set F"
    with F_sub have "x \<in> set rs" "y \<in> set rs" by auto
    then show "cmp' x y = compare_sessions env (d x) (d y)"
      by (simp add: cmp'_def read2)
  qed
  have filtered_eq: "map d F = filter (squad_matches env squadId) ss"
    unfolding ss F_def by (simp add: filter_map comp_def)
  have S_sub: "set S \<subseteq> set rs"
    using F_sub by (simp add: S_def set_array_sort)
  have at3: "sessions_at h3 (Suc n) = Some (map d S)"
  proof -
    have "read_array h3 (Suc n) = Some S" by (simp add: read_array_def h3_def)
    moreover have "those (map (read_session h3) S) = Some (map d S)"
      by (rule those_map_the) (use S_sub read3 in blast)
    ultimately show ?thesis by (simp add: sessions_at_def)
  qed
  have run: "exportToExcel_heap env h a squadId = Some (h3, number_rows [] 0 (map d S))"
    by (simp add: exportToExcel_heap_def rs ss_rs F alloc1 array1 alloc2 sort3 at3)
  have rows: "number_rows [] 0 (map d S) = dataRows env ss squadId"
    by (simp add: dataRows_def sortedSessions_def sorted_eq filtered_eq)
  have frame: "\<forall>b<next_addr h. store h3 b = store h b"
    using store3 by (simp add: n_def)
  have input3: "sessions_at h3 a = Some ss"
  proof -
    have "read_array h3 a = Some rs"
      using rs store3 [OF a_below] by (simp add: read_array_def)
    moreover have "those (map (read_session h3) rs) = Some (map d rs)"
      by (rule those_map_the) (use read3 in blast)
    ultimately show ?thesis by (simp add: sessions_at_def ss)
  qed
  from run rows frame input3 show ?thesis by blast
qed

theorem exportToExcel_heap_frame_witness:
  "\<exists>h' rows. exportToExcel_heap plain_env example_heap 2 (SquadNum 4) = Some (h', rows) \<and>
      rows = dataRows plain_env [advanced_session, intro_session] (SquadNum 4) \<and>
      store h' 2 = store example_heap 2 \<and>
      sessions_at h' 2 = Some [advanced_session, intro_session]"
proof -
  have ok: "heap_ok example_heap"
    by (simp add: heap_ok_def example_heap_def)
  have input: "sessions_at example_heap 2 = Some [advanced_session, intro_session]"
    by (simp add: sessions_at_def read_array_def read_session_def example_heap_def)
  from exportToExcel_heap_frame [OF ok input, of plain_env "SquadNum 4"]
  obtain h' rows where run: "exportToExcel_heap plain_env example_heap 2 (SquadNum 4) = Some (h', rows)"
    and rows: "rows = dataRows plain_env [advanced_session, intro_session] (SquadNum 4)"
    and frame: "\<forall>b<next_addr example_heap. store h' b = store example_heap b"
    and kept: "sessions_at h' 2 = Some [advanced_session, intro_session]"
    by blast
  have "next_addr example_heap = 3" by (simp add: example_heap_def)
  with frame have "store h' 2 = store example_heap 2" by simp
  with run rows kept show ?thesis by blast
qed

end
